theory Spec2Isabelle
  imports Main "HOL-Library.AList"
begin

section \<open>The scaffolding engine of pkg/project/create.go\<close>

text \<open>
  \<open>Create(templateName, home)\<close> is one Go function that talks to the file system of the
  working directory, to the embedded template store \<open>platform.Templates\<close>, to the npm
  registry and to five libraries (encoding/json, gokvpairs, hujson, regexp, text/template).
  The embedding keeps the control flow of the function line by line and makes the rest
  explicit:
  \<^item> the outside is a record \<open>world\<close>: files and directories by path string, the template
    store as a tree, the registry as a function of the URL, an oracle \<open>fault\<close> that lets any
    system call fail, and the \<open>trace\<close> of the calls made so far;
  \<^item> the libraries are a record \<open>lib\<close> of functions, a parameter of every definition that
    calls one;
  \<^item> an error return is a value of type \<open>error\<close>, a panic is the error \<open>GoPanic\<close>.
  Logging (\<open>slog.Info\<close>) and the deferred \<open>Close\<close> calls, whose results the code never reads,
  are left out. Files are identified by their path string: two different strings are two
  files.
\<close>

subsection \<open>Errors\<close>

datatype errno =
  ENOENT | EEXIST | ENOTEMPTY | ENOTDIR | EISDIR | EINVAL | EACCES | ENOSPC | EIO

datatype error =
    ErrConfigExists
  | ErrPackageJsonInvalid
  | PathError string string errno
  | ReadPresetError error
  | LibError string
  | GoPanic string

text \<open>\<open>os.IsExist\<close> and \<open>os.IsNotExist\<close> look at the errno under a \<open>*PathError\<close>; both are
  false of \<open>nil\<close> and of an error wrapped by \<open>fmt.Errorf\<close>.\<close>

fun underlyingError :: "error \<Rightarrow> errno option" where
  "underlyingError (PathError opn path e) = Some e"
| "underlyingError ErrConfigExists = None"
| "underlyingError ErrPackageJsonInvalid = None"
| "underlyingError (ReadPresetError e) = None"
| "underlyingError (LibError s) = None"
| "underlyingError (GoPanic s) = None"

definition os_IsExist :: "error option \<Rightarrow> bool" where
  "os_IsExist err =
     (case err of None \<Rightarrow> False
      | Some e \<Rightarrow> underlyingError e = Some EEXIST \<or> underlyingError e = Some ENOTEMPTY)"

definition os_IsNotExist :: "error option \<Rightarrow> bool" where
  "os_IsNotExist err =
     (case err of None \<Rightarrow> False | Some e \<Rightarrow> underlyingError e = Some ENOENT)"

subsection \<open>Strings and paths\<close>

definition nl :: char where
  "nl = CHR 0x0A"

definition slash :: char where
  "slash = CHR ''/''"

fun strings_HasPrefix :: "string \<Rightarrow> string \<Rightarrow> bool" where
  "strings_HasPrefix s [] = True"
| "strings_HasPrefix [] (p # ps) = False"
| "strings_HasPrefix (c # s) (p # ps) = (c = p \<and> strings_HasPrefix s ps)"

definition strings_HasSuffix :: "string \<Rightarrow> string \<Rightarrow> bool" where
  "strings_HasSuffix s suffix = strings_HasPrefix (rev s) (rev suffix)"

definition strings_TrimPrefix :: "string \<Rightarrow> string \<Rightarrow> string" where
  "strings_TrimPrefix s p = (if strings_HasPrefix s p then drop (length p) s else s)"

fun strings_Contains :: "string \<Rightarrow> string \<Rightarrow> bool" where
  "strings_Contains [] substr = (substr = [])"
| "strings_Contains (c # s) substr =
     (strings_HasPrefix (c # s) substr \<or> strings_Contains s substr)"

text \<open>The number of places where \<open>substr\<close> starts in \<open>s\<close>.\<close>

fun occurrences :: "string \<Rightarrow> string \<Rightarrow> nat" where
  "occurrences [] substr = (if substr = [] then 1 else 0)"
| "occurrences (c # s) substr =
     (if strings_HasPrefix (c # s) substr then 1 else 0) + occurrences s substr"

fun split_slash :: "string \<Rightarrow> string list" where
  "split_slash [] = [[]]"
| "split_slash (c # s) =
     (if c = slash then [] # split_slash s
      else (case split_slash s of [] \<Rightarrow> [[c]] | x # xs \<Rightarrow> (c # x) # xs))"

fun join_slash :: "string list \<Rightarrow> string" where
  "join_slash [] = []"
| "join_slash [x] = x"
| "join_slash (x # y # xs) = x @ slash # join_slash (y # xs)"

text \<open>\<open>path.Clean\<close> on a slash-separated path: empty and \<open>.\<close> elements go, \<open>..\<close> removes
  the element before it (at the root it goes, at the start of a relative path it stays).
  \<open>acc\<close> is the cleaned prefix, last element first.\<close>

fun clean_elems :: "bool \<Rightarrow> string list \<Rightarrow> string list \<Rightarrow> string list" where
  "clean_elems rooted acc [] = rev acc"
| "clean_elems rooted acc (e # es) =
     (if e = [] \<or> e = ''.'' then clean_elems rooted acc es
      else if e = ''..'' then
        (case acc of
           [] \<Rightarrow> if rooted then clean_elems rooted [] es else clean_elems rooted [''..''] es
         | a # acc' \<Rightarrow>
             if a = ''..'' then clean_elems rooted (''..'' # acc) es
             else clean_elems rooted acc' es)
      else clean_elems rooted (e # acc) es)"

definition filepath_Clean :: "string \<Rightarrow> string" where
  "filepath_Clean path =
     (let rooted = strings_HasPrefix path [slash];
          body = join_slash (clean_elems rooted [] (split_slash path));
          out = (if rooted then slash # body else body)
      in if out = [] then ''.'' else out)"

text \<open>\<open>filepath.Join\<close>: the elements from the first non-empty one on, joined and cleaned.\<close>

definition filepath_Join :: "string list \<Rightarrow> string" where
  "filepath_Join elem =
     (case dropWhile (\<lambda>e. e = []) elem of
        [] \<Rightarrow> []
      | e # es \<Rightarrow> filepath_Clean (join_slash (e # es)))"

definition filepath_Base :: "string \<Rightarrow> string" where
  "filepath_Base path =
     (if path = [] then ''.''
      else (let stripped = rev (dropWhile (\<lambda>c. c = slash) (rev path));
                last_elem = rev (takeWhile (\<lambda>c. c \<noteq> slash) (rev stripped))
            in if last_elem = [] then [slash] else last_elem))"

subsection \<open>The world outside the process\<close>

text \<open>The embedded template store is a finite tree; a directory lists its entries in the
  order \<open>ReadDir\<close> returns them.\<close>

datatype entry = EmbFile string string | EmbDir string "entry list"

fun entry_name :: "entry \<Rightarrow> string" where
  "entry_name (EmbFile n c) = n"
| "entry_name (EmbDir n es) = n"

fun entry_IsDir :: "entry \<Rightarrow> bool" where
  "entry_IsDir (EmbFile n c) = False"
| "entry_IsDir (EmbDir n es) = True"

datatype call =
    Os_Stat string
  | Os_Getwd
  | Os_Open string
  | File_Read string
  | Os_ReadFile string
  | Os_Create string
  | File_WriteString string string
  | Os_MkdirAll string
  | Os_WriteFile string string
  | Os_OpenFile string
  | Io_ReadAll string
  | Embed_ReadFile string
  | Embed_Stat string
  | Http_Get string

record world =
  files :: "string \<Rightarrow> string option"
  dirs :: "string set"
  cwd :: string
  Templates :: "entry list"
  registry :: "string \<Rightarrow> error + string"
  fault :: "call list \<Rightarrow> call \<Rightarrow> errno option"
  trace :: "call list"

text \<open>Every call is appended to the trace. A system call first asks the oracle, which sees
  the calls made before: it stands for whatever the model does not track (permissions,
  missing parent directories, a full disk).\<close>

definition record_call :: "call \<Rightarrow> world \<Rightarrow> world" where
  "record_call c w = w\<lparr>trace := trace w @ [c]\<rparr>"

definition syscall :: "call \<Rightarrow> world \<Rightarrow> errno option \<times> world" where
  "syscall c w = (fault w (trace w) c, record_call c w)"

definition os_Stat :: "string \<Rightarrow> world \<Rightarrow> error option \<times> world" where
  "os_Stat name w =
     (case syscall (Os_Stat name) w of
        (Some e, w') \<Rightarrow> (Some (PathError ''stat'' name e), w')
      | (None, w') \<Rightarrow>
          if name \<in> dirs w' \<or> files w' name \<noteq> None then (None, w')
          else (Some (PathError ''stat'' name ENOENT), w'))"

definition os_Getwd :: "world \<Rightarrow> (error + string) \<times> world" where
  "os_Getwd w =
     (case syscall Os_Getwd w of
        (Some e, w') \<Rightarrow> (Inl (PathError ''getwd'' ''.'' e), w')
      | (None, w') \<Rightarrow> (Inr (cwd w'), w'))"

text \<open>\<open>os.Open\<close> gives a handle, here the name; reading from it is a call of its own.\<close>

definition os_Open :: "string \<Rightarrow> world \<Rightarrow> (error + string) \<times> world" where
  "os_Open name w =
     (case syscall (Os_Open name) w of
        (Some e, w') \<Rightarrow> (Inl (PathError ''open'' name e), w')
      | (None, w') \<Rightarrow>
          if name \<in> dirs w' \<or> files w' name \<noteq> None then (Inr name, w')
          else (Inl (PathError ''open'' name ENOENT), w'))"

definition file_Read :: "string \<Rightarrow> world \<Rightarrow> (error + string) \<times> world" where
  "file_Read name w =
     (case syscall (File_Read name) w of
        (Some e, w') \<Rightarrow> (Inl (PathError ''read'' name e), w')
      | (None, w') \<Rightarrow>
          (case files w' name of
             None \<Rightarrow> (Inl (PathError ''read'' name EISDIR), w')
           | Some content \<Rightarrow> (Inr content, w')))"

text \<open>The paths from the first element of a path down to the path itself, and whether
  one of those above the path is a regular file. Opening a path below a regular file fails
  with \<open>ENOTDIR\<close>, which \<open>os.IsNotExist\<close> does not take for a missing file.\<close>

fun dir_chain :: "string list \<Rightarrow> string list \<Rightarrow> string list" where
  "dir_chain pre [] = []"
| "dir_chain pre (e # es) = join_slash (pre @ [e]) # dir_chain (pre @ [e]) es"

definition below_file :: "world \<Rightarrow> string \<Rightarrow> bool" where
  "below_file w name =
     list_ex (\<lambda>d. files w d \<noteq> None) (butlast (dir_chain [] (split_slash name)))"

definition os_ReadFile :: "string \<Rightarrow> world \<Rightarrow> (error + string) \<times> world" where
  "os_ReadFile name w =
     (case syscall (Os_ReadFile name) w of
        (Some e, w') \<Rightarrow> (Inl (PathError ''open'' name e), w')
      | (None, w') \<Rightarrow>
          if below_file w' name then (Inl (PathError ''open'' name ENOTDIR), w')
          else
            (case files w' name of
               Some content \<Rightarrow> (Inr content, w')
             | None \<Rightarrow>
                 if name \<in> dirs w' then (Inl (PathError ''read'' name EISDIR), w')
                 else (Inl (PathError ''open'' name ENOENT), w')))"

text \<open>\<open>os.Create\<close> opens with \<open>O_RDWR|O_CREATE|O_TRUNC\<close>: the file is empty afterwards.\<close>

definition os_Create :: "string \<Rightarrow> world \<Rightarrow> (error + string) \<times> world" where
  "os_Create name w =
     (case syscall (Os_Create name) w of
        (Some e, w') \<Rightarrow> (Inl (PathError ''open'' name e), w')
      | (None, w') \<Rightarrow>
          if name \<in> dirs w' then (Inl (PathError ''open'' name EISDIR), w')
          else (Inr name, w'\<lparr>files := (files w')(name \<mapsto> [])\<rparr>))"

text \<open>Every handle the code writes to stands at the end of its file (after \<open>os.Create\<close>
  the file is empty, after \<open>io.ReadAll\<close> all of it has been read), so a write appends.
  A write that fails writes nothing.\<close>

definition file_WriteString :: "string \<Rightarrow> string \<Rightarrow> world \<Rightarrow> error option \<times> world" where
  "file_WriteString name s w =
     (case syscall (File_WriteString name s) w of
        (Some e, w') \<Rightarrow> (Some (PathError ''write'' name e), w')
      | (None, w') \<Rightarrow>
          (None, w'\<lparr>files := (files w')(name \<mapsto>
             (case files w' name of None \<Rightarrow> s | Some content \<Rightarrow> content @ s))\<rparr>))"

text \<open>\<open>os.MkdirAll\<close> makes the directory and the directories above it.\<close>

definition os_MkdirAll :: "string \<Rightarrow> world \<Rightarrow> error option \<times> world" where
  "os_MkdirAll path w =
     (case syscall (Os_MkdirAll path) w of
        (Some e, w') \<Rightarrow> (Some (PathError ''mkdir'' path e), w')
      | (None, w') \<Rightarrow>
          (let chain = dir_chain [] (split_slash path) in
           if list_ex (\<lambda>d. files w' d \<noteq> None) chain
           then (Some (PathError ''mkdir'' path ENOTDIR), w')
           else (None, w'\<lparr>dirs := dirs w' \<union> set chain\<rparr>)))"

text \<open>\<open>os.WriteFile\<close> replaces the content; a failing call is taken to leave the file as
  it was.\<close>

definition os_WriteFile :: "string \<Rightarrow> string \<Rightarrow> world \<Rightarrow> error option \<times> world" where
  "os_WriteFile name bytes w =
     (case syscall (Os_WriteFile name bytes) w of
        (Some e, w') \<Rightarrow> (Some (PathError ''open'' name e), w')
      | (None, w') \<Rightarrow>
          if name \<in> dirs w' then (Some (PathError ''open'' name EISDIR), w')
          else (None, w'\<lparr>files := (files w')(name \<mapsto> bytes)\<rparr>))"

text \<open>\<open>os.OpenFile(name, O_RDWR|O_CREATE, 0666)\<close> creates an empty file when there is
  none and keeps the content otherwise.\<close>

definition os_OpenFile :: "string \<Rightarrow> world \<Rightarrow> (error + string) \<times> world" where
  "os_OpenFile name w =
     (case syscall (Os_OpenFile name) w of
        (Some e, w') \<Rightarrow> (Inl (PathError ''open'' name e), w')
      | (None, w') \<Rightarrow>
          if name \<in> dirs w' then (Inl (PathError ''open'' name EISDIR), w')
          else (case files w' name of
                  None \<Rightarrow> (Inr name, w'\<lparr>files := (files w')(name \<mapsto> [])\<rparr>)
                | Some content \<Rightarrow> (Inr name, w')))"

definition io_ReadAll :: "string \<Rightarrow> world \<Rightarrow> (error + string) \<times> world" where
  "io_ReadAll name w =
     (case syscall (Io_ReadAll name) w of
        (Some e, w') \<Rightarrow> (Inl (PathError ''read'' name e), w')
      | (None, w') \<Rightarrow>
          (case files w' name of
             None \<Rightarrow> (Inl (PathError ''read'' name EISDIR), w')
           | Some content \<Rightarrow> (Inr content, w')))"

text \<open>\<open>http.Get\<close>: the registry decides what comes back for a URL.\<close>

definition http_Get :: "string \<Rightarrow> world \<Rightarrow> (error + string) \<times> world" where
  "http_Get url w = (registry w url, record_call (Http_Get url) w)"

subsection \<open>The embedded template store\<close>

fun find_entry :: "string \<Rightarrow> entry list \<Rightarrow> entry option" where
  "find_entry n [] = None"
| "find_entry n (e # es) = (if entry_name e = n then Some e else find_entry n es)"

fun lookup_entry :: "entry list \<Rightarrow> string list \<Rightarrow> entry option" where
  "lookup_entry es [] = None"
| "lookup_entry es [n] = find_entry n es"
| "lookup_entry es (n # m # ns) =
     (case find_entry n es of
        Some (EmbDir d ds) \<Rightarrow> lookup_entry ds (m # ns)
      | _ \<Rightarrow> None)"

text \<open>\<open>fs.ValidPath\<close>: \<open>.\<close>, or elements none of which is empty, \<open>.\<close> or \<open>..\<close>.
  The embedded store answers \<open>fs.ErrNotExist\<close> for a path that is not valid, as for one
  that is not there.\<close>

definition fs_ValidPath :: "string \<Rightarrow> bool" where
  "fs_ValidPath name =
     (name = ''.'' \<or> list_all (\<lambda>e. e \<noteq> [] \<and> e \<noteq> ''.'' \<and> e \<noteq> ''..'') (split_slash name))"

definition embed_lookup :: "world \<Rightarrow> string \<Rightarrow> error + entry" where
  "embed_lookup w name =
     (if fs_ValidPath name then
        (if name = ''.'' then Inr (EmbDir ''.'' (Templates w))
         else (case lookup_entry (Templates w) (split_slash name) of
                 None \<Rightarrow> Inl (PathError ''open'' name ENOENT)
               | Some e \<Rightarrow> Inr e))
      else Inl (PathError ''open'' name ENOENT))"

definition Templates_ReadFile :: "string \<Rightarrow> world \<Rightarrow> (error + string) \<times> world" where
  "Templates_ReadFile name w =
     (case embed_lookup w name of
        Inl e \<Rightarrow> (Inl e, record_call (Embed_ReadFile name) w)
      | Inr (EmbFile n content) \<Rightarrow> (Inr content, record_call (Embed_ReadFile name) w)
      | Inr (EmbDir n es) \<Rightarrow>
          (Inl (PathError ''read'' name EISDIR), record_call (Embed_ReadFile name) w))"

text \<open>\<open>fs.WalkDir\<close> calls the function on the root and, below a directory, on every entry
  in order; the first error ends the walk. (The function of the copy step never returns
  \<open>fs.SkipDir\<close> or \<open>fs.SkipAll\<close>.) When the root cannot be found the function is called
  with no entry.\<close>

fun walkDir ::
    "(string \<Rightarrow> entry option \<Rightarrow> world \<Rightarrow> error option \<times> world) \<Rightarrow>
      string \<Rightarrow> entry \<Rightarrow> world \<Rightarrow> error option \<times> world"
  and walkDirs ::
    "(string \<Rightarrow> entry option \<Rightarrow> world \<Rightarrow> error option \<times> world) \<Rightarrow>
      string \<Rightarrow> entry list \<Rightarrow> world \<Rightarrow> error option \<times> world" where
  "walkDir fn name (EmbFile n c) w = fn name (Some (EmbFile n c)) w"
| "walkDir fn name (EmbDir n ds) w =
     (case fn name (Some (EmbDir n ds)) w of
        (Some e, w') \<Rightarrow> (Some e, w')
      | (None, w') \<Rightarrow> walkDirs fn name ds w')"
| "walkDirs fn name [] w = (None, w)"
| "walkDirs fn name (d1 # ds) w =
     (case walkDir fn (filepath_Join [name, entry_name d1]) d1 w of
        (Some e, w') \<Rightarrow> (Some e, w')
      | (None, w') \<Rightarrow> walkDirs fn name ds w')"

definition fs_WalkDir ::
    "(string \<Rightarrow> entry option \<Rightarrow> world \<Rightarrow> error option \<times> world) \<Rightarrow>
      string \<Rightarrow> world \<Rightarrow> error option \<times> world" where
  "fs_WalkDir fn root w =
     (case embed_lookup w root of
        Inl err \<Rightarrow> fn root None (record_call (Embed_Stat root) w)
      | Inr info \<Rightarrow> walkDir fn root info (record_call (Embed_Stat root) w))"

subsection \<open>The preset and the libraries\<close>

record step =
  Type :: string
  Properties :: string

record npmStep =
  Package :: string
  Version :: string
  File :: string
  Dev :: bool

record regexPair =
  Find :: string
  Replace :: string

record patchStep =
  Patch :: string
  File :: string
  Regex :: "regexPair list"

record gitignoreStep =
  Name :: string
  Path :: string

record preset =
  Steps :: "step list"

text \<open>What \<open>encoding/json\<close> decodes into an \<open>interface{}\<close>. A Go map is a finite map from
  keys to values.\<close>

typedecl float64

datatype jvalue =
    JNull
  | JBool bool
  | JNumber float64
  | JString string
  | JArray "jvalue list"
  | JMap "string \<Rightarrow> jvalue option"

text \<open>\<open>gokvpairs.KeyValuePairs[interface{}]\<close>: a slice of key/value pairs, in the order
  of the document. The nil slice is the empty list.\<close>

type_synonym kvpairs = "(string \<times> jvalue) list"

datatype hujson_Value = HujsonValue string
datatype regexp = Regexp string
datatype template = Template string string

record lib =
  json_Unmarshal_preset :: "string \<Rightarrow> error + preset"
  json_Unmarshal_npmStep :: "string \<Rightarrow> error + npmStep"
  json_Unmarshal_patchStep :: "string \<Rightarrow> error + patchStep"
  json_Unmarshal_gitignoreStep :: "string \<Rightarrow> error + gitignoreStep"
  json_Decode_KeyValuePairs :: "string \<Rightarrow> error + kvpairs"
  json_Decode_latest :: "string \<Rightarrow> error + string"
  json_MarshalIndent :: "kvpairs \<Rightarrow> string \<Rightarrow> string \<Rightarrow> error + string"
  hujson_Parse :: "string \<Rightarrow> error + hujson_Value"
  hujson_Patch :: "hujson_Value \<Rightarrow> string \<Rightarrow> error + hujson_Value"
  hujson_Pack :: "hujson_Value \<Rightarrow> string"
  regexp_Compile :: "string \<Rightarrow> regexp option"
  regexp_ReplaceAllString :: "regexp \<Rightarrow> string \<Rightarrow> string \<Rightarrow> string"
  template_Parse :: "string \<Rightarrow> string \<Rightarrow> error + template"
  template_Execute :: "template \<Rightarrow> string \<Rightarrow> string \<Rightarrow> string \<times> error option"
  strings_ToLower :: "string \<Rightarrow> string"

text \<open>The two accumulators of a run: \<open>packageJsons\<close>, a Go map from file name to document
  (an association list with one pair per key), and \<open>gitignoreSteps\<close>.\<close>

record run =
  packageJsons :: "(string \<times> kvpairs) list"
  gitignoreSteps :: "gitignoreStep list"

subsection \<open>The npm step (lines 91 to 148)\<close>

text \<open>\<open>packageJsons[file]\<close> is the nil slice when the key is absent.\<close>

definition cached :: "(string \<times> kvpairs) list \<Rightarrow> string \<Rightarrow> kvpairs" where
  "cached pjs file = (case map_of pjs file of None \<Rightarrow> [] | Some packageJson \<Rightarrow> packageJson)"

definition read_packageJson ::
    "lib \<Rightarrow> string \<Rightarrow> run \<Rightarrow> world \<Rightarrow> (error + kvpairs \<times> run) \<times> world" where
  "read_packageJson L file r w =
     (if cached (packageJsons r) file = [] then
        (case os_Open file w of
           (Inl err, w1) \<Rightarrow> (Inl err, w1)
         | (Inr f, w1) \<Rightarrow>
             (case file_Read f w1 of
                (Inl err, w2) \<Rightarrow> (Inl err, w2)
              | (Inr bytes, w2) \<Rightarrow>
                  (case json_Decode_KeyValuePairs L bytes of
                     Inl err \<Rightarrow> (Inl err, w2)
                   | Inr packageJson \<Rightarrow>
                       (Inr (packageJson,
                          r\<lparr>packageJsons := AList.update file packageJson (packageJsons r)\<rparr>),
                        w2))))
      else (Inr (cached (packageJsons r) file, r), w))"

text \<open>The loop of lines 117 to 121: every item whose key is the field is asserted to be a
  map (the assertion panics on anything else), and the last one is the target.\<close>

fun find_target ::
    "string \<Rightarrow> kvpairs \<Rightarrow> (string \<Rightarrow> jvalue option) option \<Rightarrow>
      error + (string \<Rightarrow> jvalue option) option" where
  "find_target field [] target = Inr target"
| "find_target field (item # items) target =
     (if fst item = field then
        (case snd item of
           JMap m \<Rightarrow> find_target field items (Some m)
         | _ \<Rightarrow> Inl (GoPanic ''interface conversion''))
      else find_target field items target)"

text \<open>\<open>target\<close> is the very map that the last item with this key holds, so
  \<open>target[k] = v\<close> changes the document at that item.\<close>

fun assign_target :: "string \<Rightarrow> string \<Rightarrow> jvalue \<Rightarrow> kvpairs \<Rightarrow> kvpairs" where
  "assign_target field k v [] = []"
| "assign_target field k v (item # items) =
     (if fst item = field \<and> list_all (\<lambda>i. fst i \<noteq> field) items
      then (fst item, (case snd item of JMap m \<Rightarrow> JMap (m(k \<mapsto> v)) | x \<Rightarrow> x)) # items
      else item # assign_target field k v items)"

definition resolve_version :: "lib \<Rightarrow> npmStep \<Rightarrow> world \<Rightarrow> (error + string) \<times> world" where
  "resolve_version L npmStep w =
     (if Version npmStep = [] then
        (case http_Get (''https://registry.npmjs.org/'' @ Package npmStep @ ''/latest'') w of
           (Inl err, w1) \<Rightarrow> (Inl err, w1)
         | (Inr body, w1) \<Rightarrow>
             (case json_Decode_latest L body of
                Inl err \<Rightarrow> (Inl err, w1)
              | Inr version \<Rightarrow> (Inr version, w1)))
      else (Inr (Version npmStep), w))"

definition npm_field :: "npmStep \<Rightarrow> string" where
  "npm_field npmStep = (if Dev npmStep then ''devDependencies'' else ''dependencies'')"

definition npm_step :: "lib \<Rightarrow> step \<Rightarrow> run \<Rightarrow> world \<Rightarrow> (error + run) \<times> world" where
  "npm_step L stp r w =
     (case json_Unmarshal_npmStep L (Properties stp) of
        Inl err \<Rightarrow> (Inl err, w)
      | Inr npmStep \<Rightarrow>
          (case read_packageJson L (npmStep.File npmStep) r w of
             (Inl err, w1) \<Rightarrow> (Inl err, w1)
           | (Inr (packageJson, r1), w1) \<Rightarrow>
               (case find_target (npm_field npmStep) packageJson None of
                  Inl err \<Rightarrow> (Inl err, w1)
                | Inr target \<Rightarrow>
                    (let packageJson' =
                           (case target of
                              None \<Rightarrow> packageJson @ [(npm_field npmStep, JMap Map.empty)]
                            | Some m \<Rightarrow> packageJson)
                     in case resolve_version L npmStep w1 of
                          (Inl err, w2) \<Rightarrow> (Inl err, w2)
                        | (Inr version, w2) \<Rightarrow>
                            (Inr (r1\<lparr>packageJsons :=
                                 AList.update (npmStep.File npmStep)
                                   (assign_target (npm_field npmStep) (Package npmStep)
                                      (JString version) packageJson')
                                   (packageJsons r1)\<rparr>),
                             w2)))))"

subsection \<open>The patch step (lines 150 to 189)\<close>

text \<open>\<open>regexp.MustCompile\<close> panics on a pattern that does not compile.\<close>

fun apply_regex :: "lib \<Rightarrow> regexPair list \<Rightarrow> string \<Rightarrow> error + string" where
  "apply_regex L [] packed = Inr packed"
| "apply_regex L (pattern # patterns) packed =
     (case regexp_Compile L (Find pattern) of
        None \<Rightarrow> Inl (GoPanic ''regexp: Compile'')
      | Some re \<Rightarrow>
          apply_regex L patterns (regexp_ReplaceAllString L re packed (Replace pattern)))"

text \<open>Line 187 drops what \<open>file.WriteString\<close> returns.\<close>

definition patch_step :: "lib \<Rightarrow> step \<Rightarrow> run \<Rightarrow> world \<Rightarrow> (error + run) \<times> world" where
  "patch_step L stp r w =
     (case json_Unmarshal_patchStep L (Properties stp) of
        Inl err \<Rightarrow> (Inl err, w)
      | Inr patchStep \<Rightarrow>
          (case os_ReadFile (patchStep.File patchStep) w of
             (Inl err, w1) \<Rightarrow>
               if os_IsNotExist (Some err) then (Inr r, w1) else (Inl err, w1)
           | (Inr b, w1) \<Rightarrow>
               (case hujson_Parse L b of
                  Inl err \<Rightarrow> (Inl err, w1)
                | Inr val \<Rightarrow>
                    (case hujson_Patch L val (Patch patchStep) of
                       Inl err \<Rightarrow> (Inl err, w1)
                     | Inr val' \<Rightarrow>
                         (case apply_regex L (Regex patchStep) (hujson_Pack L val') of
                            Inl err \<Rightarrow> (Inl err, w1)
                          | Inr packed \<Rightarrow>
                              (case os_Create (patchStep.File patchStep) w1 of
                                 (Inl err, w2) \<Rightarrow> (Inl err, w2)
                               | (Inr file, w2) \<Rightarrow>
                                   (Inr r, snd (file_WriteString file packed w2))))))))"

subsection \<open>The copy step (lines 191 to 243)\<close>

text \<open>\<open>tmpl.Execute(output, data)\<close>: the library says what text the template produces
  and whether execution fails; the text goes to the file. Line 215 drops the error of
  \<open>Parse\<close>, which leaves \<open>tmpl\<close> nil, and \<open>Execute\<close> on nil panics.\<close>

definition tmpl_Execute ::
    "lib \<Rightarrow> error + template \<Rightarrow> string \<Rightarrow> string \<Rightarrow> string \<Rightarrow> world \<Rightarrow>
      error option \<times> world" where
  "tmpl_Execute L tmpl output App Home w =
     (case tmpl of
        Inl parse_err \<Rightarrow> (Some (GoPanic ''nil pointer dereference''), w)
      | Inr t \<Rightarrow>
          (case template_Execute L t App Home of
             (out, err) \<Rightarrow>
               if out = [] then (err, w)
               else (case file_WriteString output out w of
                       (Some werr, w1) \<Rightarrow> (Some werr, w1)
                     | (None, w1) \<Rightarrow> (err, w1))))"

text \<open>The function handed to \<open>fs.WalkDir\<close>. \<open>d.IsDir()\<close> on no entry panics.\<close>

definition copy_fn ::
    "lib \<Rightarrow> string \<Rightarrow> string \<Rightarrow> string \<Rightarrow> string \<Rightarrow> entry option \<Rightarrow> world \<Rightarrow>
      error option \<times> world" where
  "copy_fn L templateFilesPath directoryName home path d w =
     (case d of
        None \<Rightarrow> (Some (GoPanic ''nil pointer dereference''), w)
      | Some e \<Rightarrow>
          if entry_IsDir e then
            (let dir = filepath_Join [''.'', strings_TrimPrefix path templateFilesPath] in
             if dir = [] then (None, w) else os_MkdirAll dir w)
          else
            (case Templates_ReadFile path w of
               (Inl err, w1) \<Rightarrow> (Some err, w1)
             | (Inr src, w1) \<Rightarrow>
                 (let name = filepath_Join [''.'', strings_TrimPrefix path templateFilesPath];
                      tmpl = template_Parse L path src
                  in case os_Stat name w1 of
                       (err, w2) \<Rightarrow>
                         if os_IsExist err then (None, w2)
                         else (case os_Create name w2 of
                                 (Inl cerr, w3) \<Rightarrow> (Some cerr, w3)
                               | (Inr output, w3) \<Rightarrow>
                                   tmpl_Execute L tmpl output directoryName home w3))))"

definition copy_step ::
    "lib \<Rightarrow> string \<Rightarrow> string \<Rightarrow> string \<Rightarrow> world \<Rightarrow> error option \<times> world" where
  "copy_step L templateName home directoryName w =
     (let templateFilesPath = filepath_Join [''templates'', templateName, ''files'']
      in fs_WalkDir (copy_fn L templateFilesPath directoryName home) templateFilesPath w)"

subsection \<open>The gitignore step and the loop over the steps\<close>

definition gitignore_step :: "lib \<Rightarrow> step \<Rightarrow> run \<Rightarrow> world \<Rightarrow> (error + run) \<times> world" where
  "gitignore_step L stp r w =
     (case json_Unmarshal_gitignoreStep L (Properties stp) of
        Inl err \<Rightarrow> (Inl err, w)
      | Inr gitignoreStep \<Rightarrow>
          (Inr (r\<lparr>gitignoreSteps := gitignoreSteps r @ [gitignoreStep]\<rparr>), w))"

text \<open>The \<open>switch\<close> of line 90 has no default case.\<close>

definition run_step ::
    "lib \<Rightarrow> string \<Rightarrow> string \<Rightarrow> string \<Rightarrow> step \<Rightarrow> run \<Rightarrow> world \<Rightarrow>
      (error + run) \<times> world" where
  "run_step L templateName home directoryName stp r w =
     (if Type stp = ''npm'' then npm_step L stp r w
      else if Type stp = ''patch'' then patch_step L stp r w
      else if Type stp = ''copy'' then
        (case copy_step L templateName home directoryName w of
           (Some err, w1) \<Rightarrow> (Inl err, w1)
         | (None, w1) \<Rightarrow> (Inr r, w1))
      else if Type stp = ''gitignore'' then gitignore_step L stp r w
      else (Inr r, w))"

fun run_steps ::
    "lib \<Rightarrow> string \<Rightarrow> string \<Rightarrow> string \<Rightarrow> step list \<Rightarrow> run \<Rightarrow> world \<Rightarrow>
      (error + run) \<times> world" where
  "run_steps L templateName home directoryName [] r w = (Inr r, w)"
| "run_steps L templateName home directoryName (stp # stps) r w =
     (case run_step L templateName home directoryName stp r w of
        (Inl err, w1) \<Rightarrow> (Inl err, w1)
      | (Inr r1, w1) \<Rightarrow> run_steps L templateName home directoryName stps r1 w1)"

subsection \<open>The two flushes (lines 256 to 290)\<close>

text \<open>Go ranges over a map in an order of its choosing. The order is a parameter:
  the documents are visited by ascending \<open>rank\<close> of their file name.\<close>

fun write_packageJsons ::
    "lib \<Rightarrow> (string \<times> kvpairs) list \<Rightarrow> world \<Rightarrow> error option \<times> world" where
  "write_packageJsons L [] w = (None, w)"
| "write_packageJsons L (fc # rest) w =
     (case json_MarshalIndent L (snd fc) [] ''  '' of
        Inl err \<Rightarrow> (Some err, w)
      | Inr bytes \<Rightarrow>
          (case os_WriteFile (fst fc) bytes w of
             (Some err, w1) \<Rightarrow> (Some err, w1)
           | (None, w1) \<Rightarrow> write_packageJsons L rest w1))"

definition flush_packageJsons ::
    "lib \<Rightarrow> (string \<Rightarrow> nat) \<Rightarrow> (string \<times> kvpairs) list \<Rightarrow> world \<Rightarrow>
      error option \<times> world" where
  "flush_packageJsons L rank pjs w =
     write_packageJsons L (sort_key (\<lambda>fc. rank (fst fc)) pjs) w"

definition gitignoreFilename :: string where
  "gitignoreFilename = ''.gitignore''"

text \<open>The loop of lines 280 to 290. \<open>content\<close> is what was read before the loop; line 283
  drops what \<open>file.WriteString\<close> returns.\<close>

fun write_sections ::
    "string \<Rightarrow> string \<Rightarrow> gitignoreStep list \<Rightarrow> world \<Rightarrow> error option \<times> world" where
  "write_sections file content [] w = (None, w)"
| "write_sections file content (stp # stps) w =
     (if strings_Contains content (Path stp) then write_sections file content stps w
      else
        (let w1 = (if content \<noteq> [] \<and> \<not> strings_HasSuffix content [nl]
                   then snd (file_WriteString file [nl] w) else w)
         in case file_WriteString file
                   ([nl] @ Name stp @ [nl] @ Path stp @ [nl]) w1 of
              (Some err, w2) \<Rightarrow> (Some err, w2)
            | (None, w2) \<Rightarrow> write_sections file content stps w2))"

definition update_gitignore :: "gitignoreStep list \<Rightarrow> world \<Rightarrow> error option \<times> world" where
  "update_gitignore steps w =
     (case os_OpenFile gitignoreFilename w of
        (Inl err, w1) \<Rightarrow> (Some err, w1)
      | (Inr file, w1) \<Rightarrow>
          (case io_ReadAll file w1 of
             (Inl err, w2) \<Rightarrow> (Some err, w2)
           | (Inr bytes, w2) \<Rightarrow> write_sections file bytes steps w2))"

subsection \<open>Create\<close>

definition initial_run :: run where
  "initial_run = \<lparr>packageJsons = [], gitignoreSteps = [\<lparr>Name = ''# sst'', Path = ''.sst''\<rparr>]\<rparr>"

definition Create ::
    "lib \<Rightarrow> (string \<Rightarrow> nat) \<Rightarrow> string \<Rightarrow> string \<Rightarrow> world \<Rightarrow> error option \<times> world" where
  "Create L rank templateName home w =
     (case os_Stat ''sst.config.ts'' w of
        (None, w1) \<Rightarrow> (Some ErrConfigExists, w1)
      | (Some stat_err, w1) \<Rightarrow>
          (case os_Getwd w1 of
             (Inl err, w2) \<Rightarrow> (None, w2)
           | (Inr currentDirectory, w2) \<Rightarrow>
               (let directoryName = strings_ToLower L (filepath_Base currentDirectory) in
                case Templates_ReadFile
                       (filepath_Join [''templates'', templateName, ''preset.json'']) w2 of
                  (Inl err, w3) \<Rightarrow> (Some (ReadPresetError err), w3)
                | (Inr presetBytes, w3) \<Rightarrow>
                    (case json_Unmarshal_preset L presetBytes of
                       Inl err \<Rightarrow> (Some err, w3)
                     | Inr preset \<Rightarrow>
                         (case run_steps L templateName home directoryName (Steps preset)
                                 initial_run w3 of
                            (Inl err, w4) \<Rightarrow> (Some err, w4)
                          | (Inr r, w4) \<Rightarrow>
                              (case flush_packageJsons L rank (packageJsons r) w4 of
                                 (Some err, w5) \<Rightarrow> (Some err, w5)
                               | (None, w5) \<Rightarrow> update_gitignore (gitignoreSteps r) w5))))))"

subsection \<open>Sample libraries, templates and directories\<close>

text \<open>\<open>sample_lib\<close> answers as the Go libraries do on the texts of the sample templates
  below, and with an error on every other text. The sample names have no upper-case
  letter, no template action and no character that JSON escapes.\<close>

definition props_copy :: string where
  \<open>props_copy = ''{}''\<close>

definition props_ignore_a :: string where
  \<open>props_ignore_a = ''{"name":"# a","path":"node_modules"}''\<close>

definition props_ignore_b :: string where
  \<open>props_ignore_b = ''{"name":"# b","path":"node_modules"}''\<close>

definition props_patch :: string where
  \<open>props_patch = ''{"file":"tsconfig.json","patch":[]}''\<close>

definition props_patch_below :: string where
  \<open>props_patch_below = ''{"file":"a.txt/tsconfig.json","patch":[]}''\<close>

definition props_sst :: string where
  \<open>props_sst = ''{"file":"package.json","package":"sst","version":"3.0.0"}''\<close>

definition props_hono :: string where
  \<open>props_hono = ''{"file":"package.json","package":"hono","version":"4.0.0"}''\<close>

definition props_sst_later :: string where
  \<open>props_sst_later = ''{"file":"package.json","package":"sst","version":"3.1.0"}''\<close>

definition props_hono_latest :: string where
  \<open>props_hono_latest = ''{"file":"package.json","package":"hono"}''\<close>

definition latest_hono :: string where
  \<open>latest_hono = ''{"version":"2.3.1"}''\<close>

definition preset_empty :: string where
  \<open>preset_empty = ''{"steps":[]}''\<close>

definition preset_copy :: string where
  \<open>preset_copy = ''{"steps":[{"type":"copy","properties":{}}]}''\<close>

definition preset_dup :: string where
  \<open>preset_dup = ''{"steps":[{"type":"gitignore","properties":'' @ props_ignore_a
     @ ''},{"type":"gitignore","properties":'' @ props_ignore_b @ ''}]}''\<close>

definition preset_patch :: string where
  \<open>preset_patch = ''{"steps":[{"type":"patch","properties":'' @ props_patch @ ''}]}''\<close>

definition preset_below :: string where
  \<open>preset_below = ''{"steps":[{"type":"patch","properties":'' @ props_patch_below @ ''}]}''\<close>

definition preset_npm :: string where
  \<open>preset_npm = ''{"steps":[{"type":"npm","properties":'' @ props_sst
     @ ''},{"type":"npm","properties":'' @ props_hono @ ''}]}''\<close>

definition sample_Unmarshal_preset :: "string \<Rightarrow> error + preset" where
  "sample_Unmarshal_preset b =
     (if b = preset_empty then Inr \<lparr>Steps = []\<rparr>
      else if b = preset_copy then
        Inr \<lparr>Steps = [\<lparr>Type = ''copy'', Properties = props_copy\<rparr>]\<rparr>
      else if b = preset_dup then
        Inr \<lparr>Steps = [\<lparr>Type = ''gitignore'', Properties = props_ignore_a\<rparr>,
                      \<lparr>Type = ''gitignore'', Properties = props_ignore_b\<rparr>]\<rparr>
      else if b = preset_patch then
        Inr \<lparr>Steps = [\<lparr>Type = ''patch'', Properties = props_patch\<rparr>]\<rparr>
      else if b = preset_below then
        Inr \<lparr>Steps = [\<lparr>Type = ''patch'', Properties = props_patch_below\<rparr>]\<rparr>
      else if b = preset_npm then
        Inr \<lparr>Steps = [\<lparr>Type = ''npm'', Properties = props_sst\<rparr>,
                      \<lparr>Type = ''npm'', Properties = props_hono\<rparr>]\<rparr>
      else Inl (LibError ''json: unsupported sample''))"

definition sample_Unmarshal_npmStep :: "string \<Rightarrow> error + npmStep" where
  "sample_Unmarshal_npmStep b =
     (if b = props_sst then
        Inr \<lparr>Package = ''sst'', Version = ''3.0.0'', File = ''package.json'', Dev = False\<rparr>
      else if b = props_hono then
        Inr \<lparr>Package = ''hono'', Version = ''4.0.0'', File = ''package.json'', Dev = False\<rparr>
      else if b = props_sst_later then
        Inr \<lparr>Package = ''sst'', Version = ''3.1.0'', File = ''package.json'', Dev = False\<rparr>
      else if b = props_hono_latest then
        Inr \<lparr>Package = ''hono'', Version = [], File = ''package.json'', Dev = False\<rparr>
      else Inl (LibError ''json: unsupported sample''))"

definition sample_Unmarshal_patchStep :: "string \<Rightarrow> error + patchStep" where
  "sample_Unmarshal_patchStep b =
     (if b = props_patch then Inr \<lparr>Patch = ''[]'', File = ''tsconfig.json'', Regex = []\<rparr>
      else if b = props_patch_below then
        Inr \<lparr>Patch = ''[]'', File = ''a.txt/tsconfig.json'', Regex = []\<rparr>
      else Inl (LibError ''json: unsupported sample''))"

definition sample_Unmarshal_gitignoreStep :: "string \<Rightarrow> error + gitignoreStep" where
  "sample_Unmarshal_gitignoreStep b =
     (if b = props_ignore_a then Inr \<lparr>Name = ''# a'', Path = ''node_modules''\<rparr>
      else if b = props_ignore_b then Inr \<lparr>Name = ''# b'', Path = ''node_modules''\<rparr>
      else Inl (LibError ''json: unsupported sample''))"

definition package_json :: string where
  \<open>package_json = ''{"name":"app"}''\<close>

definition sample_Decode_KeyValuePairs :: "string \<Rightarrow> error + kvpairs" where
  "sample_Decode_KeyValuePairs b =
     (if b = package_json then Inr [(''name'', JString ''app'')]
      else Inl (LibError ''json: unsupported sample''))"

text \<open>\<open>json.MarshalIndent(content, "", "  ")\<close> for documents whose values are strings or
  maps from the sample package names to strings; a map is written with its keys sorted.\<close>

definition quoted :: "string \<Rightarrow> string" where
  "quoted s = CHR 0x22 # s @ [CHR 0x22]"

fun join_lines :: "string list \<Rightarrow> string" where
  "join_lines [] = []"
| "join_lines [x] = x"
| "join_lines (x # y # xs) = x @ '','' @ nl # join_lines (y # xs)"

definition sample_map_lines :: "(string \<Rightarrow> jvalue option) \<Rightarrow> string list" where
  "sample_map_lines m =
     concat (map (\<lambda>k. case m k of
                         Some (JString v) \<Rightarrow> [''    '' @ quoted k @ '': '' @ quoted v]
                       | _ \<Rightarrow> [])
               [''hono'', ''sst''])"

fun sample_value :: "jvalue \<Rightarrow> string option" where
  "sample_value (JString s) = Some (quoted s)"
| "sample_value (JMap m) =
     (if sample_map_lines m = [] then Some ''{}''
      else Some (''{'' @ nl # join_lines (sample_map_lines m) @ nl # ''  }''))"
| "sample_value JNull = None"
| "sample_value (JBool b) = None"
| "sample_value (JNumber x) = None"
| "sample_value (JArray xs) = None"

fun sample_items :: "kvpairs \<Rightarrow> string list option" where
  "sample_items [] = Some []"
| "sample_items (item # items) =
     (case sample_value (snd item) of
        None \<Rightarrow> None
      | Some v \<Rightarrow>
          (case sample_items items of
             None \<Rightarrow> None
           | Some ls \<Rightarrow> Some ((''  '' @ quoted (fst item) @ '': '' @ v) # ls)))"

definition sample_MarshalIndent :: "kvpairs \<Rightarrow> string \<Rightarrow> string \<Rightarrow> error + string" where
  "sample_MarshalIndent content pre indent =
     (if pre = [] \<and> indent = ''  '' then
        (case sample_items content of
           None \<Rightarrow> Inl (LibError ''json: unsupported sample'')
         | Some [] \<Rightarrow> Inr ''{}''
         | Some (l # ls) \<Rightarrow> Inr (''{'' @ nl # join_lines (l # ls) @ nl # ''}''))
      else Inl (LibError ''json: unsupported sample''))"

definition sample_lib :: lib where
  "sample_lib =
     \<lparr>json_Unmarshal_preset = sample_Unmarshal_preset,
      json_Unmarshal_npmStep = sample_Unmarshal_npmStep,
      json_Unmarshal_patchStep = sample_Unmarshal_patchStep,
      json_Unmarshal_gitignoreStep = sample_Unmarshal_gitignoreStep,
      json_Decode_KeyValuePairs = sample_Decode_KeyValuePairs,
      json_Decode_latest = (\<lambda>body. if body = latest_hono then Inr ''2.3.1''
                                  else Inl (LibError ''json: unsupported sample'')),
      json_MarshalIndent = sample_MarshalIndent,
      hujson_Parse = (\<lambda>b. if b = ''{}'' then Inr (HujsonValue ''{}'')
                            else Inl (LibError ''hujson: unsupported sample'')),
      hujson_Patch = (\<lambda>v p. if p = ''[]'' then Inr v
                              else Inl (LibError ''hujson: unsupported sample'')),
      hujson_Pack = (\<lambda>v. case v of HujsonValue t \<Rightarrow> t),
      regexp_Compile = (\<lambda>p. None),
      regexp_ReplaceAllString = (\<lambda>re src repl. src),
      template_Parse = (\<lambda>name text. if strings_Contains text ''{{''
                                      then Inl (LibError ''template: unsupported sample'')
                                      else Inr (Template name text)),
      template_Execute = (\<lambda>t App Home. case t of Template name text \<Rightarrow> (text, None)),
      strings_ToLower = (\<lambda>s. s)\<rparr>"

definition sample_Templates :: "entry list" where
  "sample_Templates =
     [EmbDir ''templates''
        [EmbDir ''below'' [EmbFile ''preset.json'' preset_below],
         EmbDir ''copy''
           [EmbDir ''files'' [EmbFile ''a.txt'' ''new''],
            EmbFile ''preset.json'' preset_copy],
         EmbDir ''dup'' [EmbFile ''preset.json'' preset_dup],
         EmbDir ''empty'' [EmbFile ''preset.json'' preset_empty],
         EmbDir ''npm'' [EmbFile ''preset.json'' preset_npm],
         EmbDir ''patch'' [EmbFile ''preset.json'' preset_patch]]]"

text \<open>A directory \<open>/home/dev/app\<close> holding the given files, with no network and no
  failing system call.\<close>

definition sample_world :: "(string \<Rightarrow> string option) \<Rightarrow> world" where
  "sample_world fs =
     \<lparr>files = fs, dirs = {''.''}, cwd = ''/home/dev/app'', Templates = sample_Templates,
      registry = (\<lambda>url. Inl (LibError ''no network'')),
      fault = (\<lambda>h c. None), trace = []\<rparr>"

definition no_rank :: "string \<Rightarrow> nat" where
  "no_rank file = 0"

text \<open>The same directory with \<open>tsconfig.json\<close> in it, on a disk that takes no more data:
  writing the two bytes to that file fails.\<close>

definition full_disk_world :: world where
  "full_disk_world =
     (sample_world [''tsconfig.json'' \<mapsto> ''{}''])
       \<lparr>fault := (\<lambda>h c. if c = File_WriteString ''tsconfig.json'' ''{}''
                          then Some ENOSPC else None)\<rparr>"

text \<open>Three npm steps on one file and field: a package with a version, a second package
  without one, and the first package again with a later version; and a directory with
  \<open>package.json\<close> in it, from where the registry answers for the second package.\<close>

definition npm_steps :: "step list" where
  "npm_steps =
     [\<lparr>Type = ''npm'', Properties = props_sst\<rparr>,
      \<lparr>Type = ''npm'', Properties = props_hono_latest\<rparr>,
      \<lparr>Type = ''npm'', Properties = props_sst_later\<rparr>]"

definition npm_world :: world where
  "npm_world =
     (sample_world [''package.json'' \<mapsto> package_json])
       \<lparr>registry := (\<lambda>url. if url = ''https://registry.npmjs.org/hono/latest''
                              then Inr latest_hono else Inl (LibError ''no network''))\<rparr>"

definition npm_run :: "(error + run) \<times> world" where
  "npm_run = run_steps sample_lib ''npm'' ''home'' ''app'' npm_steps initial_run npm_world"

subsection \<open>What the ignore flush is expected to append\<close>

text \<open>The text one section adds, and the text all sections add, given the content that
  was read when the file was opened. These two are the statement to compare the code with,
  not a translation of it.\<close>

definition section_text :: "string \<Rightarrow> gitignoreStep \<Rightarrow> string" where
  "section_text content stp =
     (if content \<noteq> [] \<and> \<not> strings_HasSuffix content [nl] then [nl] else [])
       @ [nl] @ Name stp @ [nl] @ Path stp @ [nl]"

definition new_sections :: "string \<Rightarrow> gitignoreStep list \<Rightarrow> string" where
  "new_sections content steps =
     concat (map (section_text content)
               (filter (\<lambda>stp. \<not> strings_Contains content (Path stp)) steps))"

subsection \<open>What is registered for a package\<close>

text \<open>The value that the accumulated document of a file holds for a package under a field,
  and whether a step is an npm step that decodes to this file, field and package.\<close>

definition registered :: "run \<Rightarrow> string \<Rightarrow> string \<Rightarrow> string \<Rightarrow> jvalue option" where
  "registered r file field pkg =
     (case find_target field (cached (packageJsons r) file) None of
        Inr (Some m) \<Rightarrow> m pkg
      | _ \<Rightarrow> None)"

definition writes_entry :: "lib \<Rightarrow> step \<Rightarrow> string \<Rightarrow> string \<Rightarrow> string \<Rightarrow> bool" where
  "writes_entry L stp file field pkg =
     (Type stp = ''npm'' \<and>
      (case json_Unmarshal_npmStep L (Properties stp) of
         Inl err \<Rightarrow> False
       | Inr n \<Rightarrow> npmStep.File n = file \<and> npm_field n = field \<and> Package n = pkg))"

subsection \<open>The calls of a run\<close>

text \<open>The calls made before the flushes: everything but \<open>os.WriteFile\<close>, \<open>os.OpenFile\<close>
  and \<open>io.ReadAll\<close>, which no step makes. \<open>only_calls P w w'\<close>: from \<open>w\<close> to \<open>w'\<close> the
  trace has grown by calls that satisfy \<open>P\<close>.\<close>

fun is_step_call :: "call \<Rightarrow> bool" where
  "is_step_call (Os_WriteFile name bytes) = False"
| "is_step_call (Os_OpenFile name) = False"
| "is_step_call (Io_ReadAll name) = False"
| "is_step_call (Os_Stat name) = True"
| "is_step_call Os_Getwd = True"
| "is_step_call (Os_Open name) = True"
| "is_step_call (File_Read name) = True"
| "is_step_call (Os_ReadFile name) = True"
| "is_step_call (Os_Create name) = True"
| "is_step_call (File_WriteString name s) = True"
| "is_step_call (Os_MkdirAll name) = True"
| "is_step_call (Embed_ReadFile name) = True"
| "is_step_call (Embed_Stat name) = True"
| "is_step_call (Http_Get url) = True"

definition only_calls :: "(call \<Rightarrow> bool) \<Rightarrow> world \<Rightarrow> world \<Rightarrow> bool" where
  "only_calls P w w' = (\<exists>cs. trace w' = trace w @ cs \<and> list_all P cs)"

text \<open>What the two flushes are expected to do, call by call. \<open>writes_document L fc c\<close>:
  the call \<open>c\<close> writes to the file of the pair \<open>fc\<close> its document, marshalled with no prefix
  and an indentation of two spaces. \<open>section_calls file content stp\<close>: the writes that put
  the section of one ignore step into the file, given the content read at opening; and
  \<open>ignore_calls\<close>: the calls that merge a list of ignore steps into the ignore file.\<close>

definition writes_document :: "lib \<Rightarrow> string \<times> kvpairs \<Rightarrow> call \<Rightarrow> bool" where
  "writes_document L fc c =
     (\<exists>bytes. json_MarshalIndent L (snd fc) [] ''  '' = Inr bytes \<and>
              c = Os_WriteFile (fst fc) bytes)"

definition section_calls :: "string \<Rightarrow> string \<Rightarrow> gitignoreStep \<Rightarrow> call list" where
  "section_calls file content stp =
     (if content \<noteq> [] \<and> \<not> strings_HasSuffix content [nl]
      then [File_WriteString file [nl]] else [])
       @ [File_WriteString file ([nl] @ Name stp @ [nl] @ Path stp @ [nl])]"

definition ignore_calls :: "string \<Rightarrow> gitignoreStep list \<Rightarrow> call list" where
  "ignore_calls content steps =
     Os_OpenFile gitignoreFilename # Io_ReadAll gitignoreFilename #
       concat (map (section_calls gitignoreFilename content)
                 (filter (\<lambda>stp. \<not> strings_Contains content (Path stp)) steps))"

section \<open>Properties\<close>

subsection \<open>The loop over the steps\<close>

lemma run_steps_append:
  "run_steps L tn home dn (pre @ post) r w =
     (case run_steps L tn home dn pre r w of
        (Inl err, w1) \<Rightarrow> (Inl err, w1)
      | (Inr r1, w1) \<Rightarrow> run_steps L tn home dn post r1 w1)"
  by (induction pre arbitrary: r w) (auto split: prod.splits sum.splits)

subsection \<open>The marker file\<close>

text \<open>
  C3. If \<open>sst.config.ts\<close> exists when \<open>Create\<close> is called (as a file or as a directory,
  and \<open>os.Stat\<close> reports it), \<open>Create\<close> returns \<open>ErrConfigExists\<close> and the world is the one
  before the call but for the trace, which has gained the one \<open>os.Stat\<close>: no template is
  read, no request is sent, no file or directory is created or changed. This holds of every
  world with the marker, so of a second run in an initialized directory too.
\<close>

theorem Create_marker_exists:
  assumes "''sst.config.ts'' \<in> dirs w \<or> files w ''sst.config.ts'' \<noteq> None"
    and "fault w (trace w) (Os_Stat ''sst.config.ts'') = None"
  shows "Create L rank templateName home w =
           (Some ErrConfigExists, w\<lparr>trace := trace w @ [Os_Stat ''sst.config.ts'']\<rparr>)"
  using assms by (auto simp: Create_def os_Stat_def syscall_def record_call_def)

theorem Create_marker_exists_witness:
  "Create sample_lib no_rank ''empty'' ''home''
       (sample_world [''sst.config.ts'' \<mapsto> ''export default {}'']) =
     (Some ErrConfigExists,
      (sample_world [''sst.config.ts'' \<mapsto> ''export default {}''])
        \<lparr>trace := [Os_Stat ''sst.config.ts'']\<rparr>)"
  using Create_marker_exists [of "sample_world [''sst.config.ts'' \<mapsto> ''export default {}'']"
      sample_lib no_rank "''empty''" "''home''"]
  by (simp add: sample_world_def)

subsection \<open>A failing \<open>os.Getwd\<close>\<close>

text \<open>
  C9. When \<open>os.Stat\<close> does not report the marker and the call of \<open>os.Getwd\<close> that follows
  fails, \<open>Create\<close> returns \<open>nil\<close>; the two calls are all that happened: no preset is read,
  no step runs, nothing is written.
\<close>

theorem Create_getwd_fails:
  assumes "fst (os_Stat ''sst.config.ts'' w) = Some stat_err"
    and "fault w (trace w @ [Os_Stat ''sst.config.ts'']) Os_Getwd = Some e"
  shows "Create L rank templateName home w =
           (None, w\<lparr>trace := trace w @ [Os_Stat ''sst.config.ts'', Os_Getwd]\<rparr>)"
  using assms
  by (auto simp: Create_def os_Stat_def os_Getwd_def syscall_def record_call_def
           split: option.splits if_splits)

theorem Create_getwd_fails_witness:
  "Create sample_lib no_rank ''copy'' ''home''
       ((sample_world Map.empty)\<lparr>fault := (\<lambda>h c. if c = Os_Getwd then Some EACCES else None)\<rparr>) =
     (None,
      (sample_world Map.empty)
        \<lparr>fault := (\<lambda>h c. if c = Os_Getwd then Some EACCES else None),
         trace := [Os_Stat ''sst.config.ts'', Os_Getwd]\<rparr>)"
  using Create_getwd_fails [of "(sample_world Map.empty)\<lparr>fault := (\<lambda>h c. if c = Os_Getwd then Some EACCES else None)\<rparr>"
      "PathError ''stat'' ''sst.config.ts'' ENOENT" EACCES sample_lib no_rank "''copy''" "''home''"]
  by (simp add: sample_world_def os_Stat_def syscall_def record_call_def)

subsection \<open>Steps of an unknown type\<close>

text \<open>
  C10. A step whose type is none of \<open>npm\<close>, \<open>patch\<close>, \<open>copy\<close> and \<open>gitignore\<close> changes
  neither the accumulators nor the world and gives no error, whatever its properties are and
  whatever the decoders would make of them; a pipeline with such a step runs exactly as the
  pipeline without it.
\<close>

theorem unknown_step_skipped:
  assumes "Type stp \<noteq> ''npm''" and "Type stp \<noteq> ''patch''"
    and "Type stp \<noteq> ''copy''" and "Type stp \<noteq> ''gitignore''"
  shows "run_step L templateName home directoryName stp r w = (Inr r, w) \<and>
         run_steps L templateName home directoryName (pre @ stp # post) r w =
           run_steps L templateName home directoryName (pre @ post) r w"
proof -
  have one: "\<And>r w. run_step L templateName home directoryName stp r w = (Inr r, w)"
    using assms by (simp add: run_step_def)
  have "\<And>r w. run_steps L templateName home directoryName (stp # post) r w =
          run_steps L templateName home directoryName post r w"
    by (simp add: one)
  then show ?thesis
    using one by (simp add: run_steps_append split: prod.splits sum.splits)
qed

theorem unknown_step_skipped_witness:
  "run_step sample_lib ''dup'' ''home'' ''app'' \<lparr>Type = ''bun'', Properties = ''{''\<rparr>
       initial_run (sample_world Map.empty) = (Inr initial_run, sample_world Map.empty) \<and>
   run_steps sample_lib ''dup'' ''home'' ''app''
       ([\<lparr>Type = ''gitignore'', Properties = props_ignore_a\<rparr>]
          @ \<lparr>Type = ''bun'', Properties = ''{''\<rparr>
          # [\<lparr>Type = ''gitignore'', Properties = props_ignore_b\<rparr>])
       initial_run (sample_world Map.empty) =
     run_steps sample_lib ''dup'' ''home'' ''app''
       ([\<lparr>Type = ''gitignore'', Properties = props_ignore_a\<rparr>]
          @ [\<lparr>Type = ''gitignore'', Properties = props_ignore_b\<rparr>])
       initial_run (sample_world Map.empty)"
  using unknown_step_skipped [of "\<lparr>Type = ''bun'', Properties = ''{''\<rparr>" sample_lib
      "''dup''" "''home''" "''app''" initial_run "sample_world Map.empty"
      "[\<lparr>Type = ''gitignore'', Properties = props_ignore_a\<rparr>]"
      "[\<lparr>Type = ''gitignore'', Properties = props_ignore_b\<rparr>]"]
  by simp

subsection \<open>A patch step without its file\<close>

text \<open>
  C6, as stated, fails: the template \<open>below\<close> patches \<open>a.txt/tsconfig.json\<close>; in a
  directory where \<open>a.txt\<close> is a regular file that target does not exist, \<open>os.ReadFile\<close>
  fails with \<open>ENOTDIR\<close>, \<open>os.IsNotExist\<close> is false of it, and \<open>Create\<close> returns the error:
  the step is not skipped and the ignore flush never runs.
\<close>

theorem patch_below_file_counterexample:
  "files (sample_world [''a.txt'' \<mapsto> ''old'']) ''a.txt/tsconfig.json'' = None \<and>
   ''a.txt/tsconfig.json'' \<notin> dirs (sample_world [''a.txt'' \<mapsto> ''old'']) \<and>
   fst (Create sample_lib no_rank ''below'' ''home'' (sample_world [''a.txt'' \<mapsto> ''old''])) =
     Some (PathError ''open'' ''a.txt/tsconfig.json'' ENOTDIR) \<and>
   files (snd (Create sample_lib no_rank ''below'' ''home''
                 (sample_world [''a.txt'' \<mapsto> ''old'']))) ''.gitignore'' = None"
  by code_simp

lemma below_file_trace [simp]: "below_file (w\<lparr>trace := t\<rparr>) name = below_file w name"
  by (simp add: below_file_def)

text \<open>
  C6, amended. Take a patch step whose target is neither a file nor a directory, and whose
  \<open>os.ReadFile\<close> is not made to fail by the oracle. When no path above the target is a
  regular file, the step gives no error: the accumulators are unchanged, the world has
  gained the one \<open>os.ReadFile\<close> in its trace and nothing else, so no file is created, and
  the loop goes on with the steps that follow. When a path above the target is a regular
  file, the step fails with \<open>ENOTDIR\<close> and the run is aborted.
\<close>

theorem patch_step_missing_file:
  assumes "Type stp = ''patch''"
    and "json_Unmarshal_patchStep L (Properties stp) = Inr ps"
    and "files w (patchStep.File ps) = None"
    and "patchStep.File ps \<notin> dirs w"
    and "fault w (trace w) (Os_ReadFile (patchStep.File ps)) = None"
  shows "if below_file w (patchStep.File ps)
         then run_step L templateName home directoryName stp r w =
                (Inl (PathError ''open'' (patchStep.File ps) ENOTDIR),
                 w\<lparr>trace := trace w @ [Os_ReadFile (patchStep.File ps)]\<rparr>) \<and>
              run_steps L templateName home directoryName (stp # rest) r w =
                (Inl (PathError ''open'' (patchStep.File ps) ENOTDIR),
                 w\<lparr>trace := trace w @ [Os_ReadFile (patchStep.File ps)]\<rparr>)
         else run_step L templateName home directoryName stp r w =
                (Inr r, w\<lparr>trace := trace w @ [Os_ReadFile (patchStep.File ps)]\<rparr>) \<and>
              run_steps L templateName home directoryName (stp # rest) r w =
                run_steps L templateName home directoryName rest r
                  (w\<lparr>trace := trace w @ [Os_ReadFile (patchStep.File ps)]\<rparr>)"
  using assms
  by (simp add: run_step_def patch_step_def os_ReadFile_def syscall_def record_call_def
        os_IsNotExist_def)

theorem patch_step_missing_file_witness:
  "(run_step sample_lib ''patch'' ''home'' ''app'' \<lparr>Type = ''patch'', Properties = props_patch\<rparr>
        initial_run (sample_world Map.empty) =
      (Inr initial_run, (sample_world Map.empty)\<lparr>trace := [Os_ReadFile ''tsconfig.json'']\<rparr>) \<and>
    run_steps sample_lib ''patch'' ''home'' ''app''
        [\<lparr>Type = ''patch'', Properties = props_patch\<rparr>,
         \<lparr>Type = ''gitignore'', Properties = props_ignore_a\<rparr>]
        initial_run (sample_world Map.empty) =
      run_steps sample_lib ''patch'' ''home'' ''app''
        [\<lparr>Type = ''gitignore'', Properties = props_ignore_a\<rparr>]
        initial_run ((sample_world Map.empty)\<lparr>trace := [Os_ReadFile ''tsconfig.json'']\<rparr>)) \<and>
   run_step sample_lib ''below'' ''home'' ''app''
        \<lparr>Type = ''patch'', Properties = props_patch_below\<rparr>
        initial_run (sample_world [''a.txt'' \<mapsto> ''old'']) =
      (Inl (PathError ''open'' ''a.txt/tsconfig.json'' ENOTDIR),
       (sample_world [''a.txt'' \<mapsto> ''old''])\<lparr>trace := [Os_ReadFile ''a.txt/tsconfig.json'']\<rparr>)"
proof -
  have absent: "\<not> below_file (sample_world Map.empty) ''tsconfig.json''"
    by (simp add: below_file_def sample_world_def slash_def)
  have below: "below_file (sample_world [''a.txt'' \<mapsto> ''old'']) ''a.txt/tsconfig.json''"
    by (simp add: below_file_def sample_world_def slash_def)
  have skipped:
    "run_step sample_lib ''patch'' ''home'' ''app'' \<lparr>Type = ''patch'', Properties = props_patch\<rparr>
        initial_run (sample_world Map.empty) =
      (Inr initial_run, (sample_world Map.empty)\<lparr>trace := [Os_ReadFile ''tsconfig.json'']\<rparr>) \<and>
    run_steps sample_lib ''patch'' ''home'' ''app''
        [\<lparr>Type = ''patch'', Properties = props_patch\<rparr>,
         \<lparr>Type = ''gitignore'', Properties = props_ignore_a\<rparr>]
        initial_run (sample_world Map.empty) =
      run_steps sample_lib ''patch'' ''home'' ''app''
        [\<lparr>Type = ''gitignore'', Properties = props_ignore_a\<rparr>]
        initial_run ((sample_world Map.empty)\<lparr>trace := [Os_ReadFile ''tsconfig.json'']\<rparr>)"
    using patch_step_missing_file [of "\<lparr>Type = ''patch'', Properties = props_patch\<rparr>"
        sample_lib "\<lparr>Patch = ''[]'', File = ''tsconfig.json'', Regex = []\<rparr>"
        "sample_world Map.empty" "''patch''" "''home''" "''app''" initial_run
        "[\<lparr>Type = ''gitignore'', Properties = props_ignore_a\<rparr>]"] absent
    by (simp add: sample_world_def sample_lib_def sample_Unmarshal_patchStep_def)
  have aborted:
    "run_step sample_lib ''below'' ''home'' ''app''
        \<lparr>Type = ''patch'', Properties = props_patch_below\<rparr>
        initial_run (sample_world [''a.txt'' \<mapsto> ''old'']) =
      (Inl (PathError ''open'' ''a.txt/tsconfig.json'' ENOTDIR),
       (sample_world [''a.txt'' \<mapsto> ''old''])\<lparr>trace := [Os_ReadFile ''a.txt/tsconfig.json'']\<rparr>)"
    using patch_step_missing_file [of "\<lparr>Type = ''patch'', Properties = props_patch_below\<rparr>"
        sample_lib "\<lparr>Patch = ''[]'', File = ''a.txt/tsconfig.json'', Regex = []\<rparr>"
        "sample_world [''a.txt'' \<mapsto> ''old'']" "''below''" "''home''" "''app''" initial_run "[]"]
      below
    by (simp add: sample_world_def sample_lib_def sample_Unmarshal_patchStep_def
          props_patch_def props_patch_below_def)
  show ?thesis
    using skipped aborted by blast
qed

subsection \<open>The copy step and existing files\<close>

text \<open>
  C1. The claim: a destination file that exists before the copy keeps its content. The code
  tests \<open>os.IsExist(err)\<close> on the error of \<open>os.Stat\<close>, which is \<open>nil\<close> when the file exists,
  so the test is false and \<open>os.Create\<close> truncates the file. Here the directory holds
  \<open>a.txt\<close> with content \<open>old\<close>, the template \<open>copy\<close> has a file \<open>a.txt\<close> with content
  \<open>new\<close>; \<open>Create\<close> succeeds and \<open>a.txt\<close> holds \<open>new\<close>.
\<close>

theorem copy_overwrites_existing_file:
  "fst (Create sample_lib no_rank ''copy'' ''home'' (sample_world [''a.txt'' \<mapsto> ''old''])) = None \<and>
   files (sample_world [''a.txt'' \<mapsto> ''old'']) ''a.txt'' = Some ''old'' \<and>
   files (snd (Create sample_lib no_rank ''copy'' ''home'' (sample_world [''a.txt'' \<mapsto> ''old''])))
     ''a.txt'' = Some ''new''"
  by code_simp

subsection \<open>A failing write in the patch step\<close>

text \<open>
  C8. The claim: when writing the patched text back fails, \<open>Create\<close> returns the error.
  On the full disk \<open>os.Create\<close> truncates \<open>tsconfig.json\<close>, \<open>file.WriteString\<close> fails with
  \<open>ENOSPC\<close>, line 187 drops the error, and \<open>Create\<close> returns \<open>nil\<close> with the file empty.
\<close>

theorem patch_write_failure_unreported:
  "fst (file_WriteString ''tsconfig.json'' ''{}''
         (snd (os_Create ''tsconfig.json'' full_disk_world))) =
     Some (PathError ''write'' ''tsconfig.json'' ENOSPC) \<and>
   fst (Create sample_lib no_rank ''patch'' ''home'' full_disk_world) = None \<and>
   files (snd (Create sample_lib no_rank ''patch'' ''home'' full_disk_world)) ''tsconfig.json'' =
     Some []"
  by code_simp

subsection \<open>The ignore flush\<close>

text \<open>
  C2, as stated, fails: the template \<open>dup\<close> registers \<open>node_modules\<close> twice, under the
  headers \<open># a\<close> and \<open># b\<close>; in an empty directory the ignore file ends with two
  occurrences of \<open>node_modules\<close>.
\<close>

theorem duplicate_path_counterexample:
  "fst (Create sample_lib no_rank ''dup'' ''home'' (sample_world Map.empty)) = None \<and>
   files (snd (Create sample_lib no_rank ''dup'' ''home'' (sample_world Map.empty))) ''.gitignore'' =
     Some ''\<newline># sst\<newline>.sst\<newline>\<newline># a\<newline>node_modules\<newline>\<newline># b\<newline>node_modules\<newline>'' \<and>
   occurrences ''\<newline># sst\<newline>.sst\<newline>\<newline># a\<newline>node_modules\<newline>\<newline># b\<newline>node_modules\<newline>''
     ''node_modules'' = 2"
  by code_simp

text \<open>
  C5, as stated, fails: with the template \<open>empty\<close> (no steps) in a directory whose ignore
  file is empty, \<open>Create\<close> succeeds and the ignore file begins with an empty line before
  \<open># sst\<close>.
\<close>

theorem empty_ignore_file_counterexample:
  "fst (Create sample_lib no_rank ''empty'' ''home'' (sample_world [''.gitignore'' \<mapsto> []])) =
     None \<and>
   files (sample_world [''.gitignore'' \<mapsto> []]) ''.gitignore'' = Some [] \<and>
   files (snd (Create sample_lib no_rank ''empty'' ''home''
                 (sample_world [''.gitignore'' \<mapsto> []]))) ''.gitignore'' =
     Some ''\<newline># sst\<newline>.sst\<newline>''"
  by code_simp

lemma file_WriteString_no_fault:
  assumes "fault w = (\<lambda>h c. None)"
  shows "file_WriteString name s w =
           (None, w\<lparr>trace := trace w @ [File_WriteString name s],
                     files := (files w)(name \<mapsto>
                        (case files w name of None \<Rightarrow> s | Some content \<Rightarrow> content @ s))\<rparr>)"
  using assms by (simp add: file_WriteString_def syscall_def record_call_def)

lemma write_sections_appends:
  assumes "fault w = (\<lambda>h c. None)" and "files w file = Some cur"
  shows "fst (write_sections file content steps w) = None \<and>
         files (snd (write_sections file content steps w)) =
           (files w)(file \<mapsto> cur @ new_sections content steps) \<and>
         dirs (snd (write_sections file content steps w)) = dirs w"
  using assms
proof (induction steps arbitrary: w cur)
  case Nil
  then show ?case by (simp add: new_sections_def fun_upd_idem)
next
  case (Cons stp stps)
  show ?case
  proof (cases "strings_Contains content (Path stp)")
    case True
    then show ?thesis
      using Cons.IH [OF Cons.prems] by (simp add: new_sections_def)
  next
    case False
    define w1 where "w1 = (if content \<noteq> [] \<and> \<not> strings_HasSuffix content [nl]
                   then snd (file_WriteString file [nl] w) else w)"
    define pre where "pre = (if content \<noteq> [] \<and> \<not> strings_HasSuffix content [nl] then [nl] else [])"
    have w1: "fault w1 = (\<lambda>h c. None)" "files w1 = (files w)(file \<mapsto> cur @ pre)" "dirs w1 = dirs w"
      using Cons.prems
      by (auto simp: w1_def pre_def file_WriteString_no_fault fun_upd_idem)
    define w2 where "w2 = snd (file_WriteString file ([nl] @ Name stp @ [nl] @ Path stp @ [nl]) w1)"
    have w2: "fault w2 = (\<lambda>h c. None)"
      "files w2 = (files w)(file \<mapsto> cur @ section_text content stp)" "dirs w2 = dirs w"
      "fst (file_WriteString file ([nl] @ Name stp @ [nl] @ Path stp @ [nl]) w1) = None"
      using w1 by (auto simp: w2_def file_WriteString_no_fault section_text_def pre_def)
    have "file_WriteString file ([nl] @ Name stp @ [nl] @ Path stp @ [nl]) w1 = (None, w2)"
      using w2(4) by (simp add: w2_def prod_eq_iff)
    then have step:
      "write_sections file content (stp # stps) w = write_sections file content stps w2"
      using False unfolding w1_def by (simp del: file_WriteString_def)
    have "files w2 file = Some (cur @ section_text content stp)"
      using w2(2) by simp
    from Cons.IH [OF w2(1) this] show ?thesis
      unfolding step using False w2(2,3) by (auto simp: new_sections_def)
  qed
qed

lemma update_gitignore_result:
  assumes "fault w = (\<lambda>h c. None)" and "gitignoreFilename \<notin> dirs w"
    and "old = (case files w gitignoreFilename of None \<Rightarrow> [] | Some content \<Rightarrow> content)"
  shows "fst (update_gitignore steps w) = None \<and>
         files (snd (update_gitignore steps w)) =
           (files w)(gitignoreFilename \<mapsto> old @ new_sections old steps)"
proof -
  define w2 where "w2 = snd (io_ReadAll gitignoreFilename (snd (os_OpenFile gitignoreFilename w)))"
  have w2: "fault w2 = (\<lambda>h c. None)" "files w2 = (files w)(gitignoreFilename \<mapsto> old)"
    using assms
    by (auto simp: w2_def os_OpenFile_def io_ReadAll_def syscall_def record_call_def
          split: option.splits)
  have run: "update_gitignore steps w = write_sections gitignoreFilename old steps w2"
    using assms
    by (auto simp: update_gitignore_def w2_def os_OpenFile_def io_ReadAll_def syscall_def
          record_call_def split: option.splits)
  have "files w2 gitignoreFilename = Some old"
    using w2(2) by simp
  from write_sections_appends [OF w2(1) this, of old steps] show ?thesis
    unfolding run using w2(2) by auto
qed

text \<open>
  C2, amended. When no system call fails, the flush leaves every other file alone and the
  ignore file is its content at opening (empty when it was missing) followed by one section
  for each registered step, in the order of registration, whose path does not occur in that
  content; a step whose path occurs there adds nothing. Paths are compared with the content
  at opening only, so a path registered twice in one run gets two sections.
\<close>

theorem ignore_flush_appends_sections:
  assumes "fault w = (\<lambda>h c. None)" and "gitignoreFilename \<notin> dirs w"
    and "old = (case files w gitignoreFilename of None \<Rightarrow> [] | Some content \<Rightarrow> content)"
  shows "fst (update_gitignore steps w) = None \<and>
         files (snd (update_gitignore steps w)) gitignoreFilename =
           Some (old @ new_sections old steps) \<and>
         (\<forall>name. name \<noteq> gitignoreFilename \<longrightarrow>
            files (snd (update_gitignore steps w)) name = files w name)"
  using update_gitignore_result [OF assms, of steps] by simp

theorem ignore_flush_appends_sections_witness:
  "fst (update_gitignore
         [\<lparr>Name = ''# sst'', Path = ''.sst''\<rparr>, \<lparr>Name = ''# a'', Path = ''node_modules''\<rparr>,
          \<lparr>Name = ''# b'', Path = ''node_modules''\<rparr>, \<lparr>Name = ''# c'', Path = ''dist''\<rparr>]
         (sample_world [''.gitignore'' \<mapsto> ''dist'', ''a.txt'' \<mapsto> ''old''])) = None \<and>
   files (snd (update_gitignore
         [\<lparr>Name = ''# sst'', Path = ''.sst''\<rparr>, \<lparr>Name = ''# a'', Path = ''node_modules''\<rparr>,
          \<lparr>Name = ''# b'', Path = ''node_modules''\<rparr>, \<lparr>Name = ''# c'', Path = ''dist''\<rparr>]
         (sample_world [''.gitignore'' \<mapsto> ''dist'', ''a.txt'' \<mapsto> ''old'']))) ''.gitignore'' =
     Some ''dist\<newline>\<newline># sst\<newline>.sst\<newline>\<newline>\<newline># a\<newline>node_modules\<newline>\<newline>\<newline># b\<newline>node_modules\<newline>'' \<and>
   files (snd (update_gitignore
         [\<lparr>Name = ''# sst'', Path = ''.sst''\<rparr>, \<lparr>Name = ''# a'', Path = ''node_modules''\<rparr>,
          \<lparr>Name = ''# b'', Path = ''node_modules''\<rparr>, \<lparr>Name = ''# c'', Path = ''dist''\<rparr>]
         (sample_world [''.gitignore'' \<mapsto> ''dist'', ''a.txt'' \<mapsto> ''old'']))) ''a.txt'' =
     Some ''old''"
  using ignore_flush_appends_sections
    [of "sample_world [''.gitignore'' \<mapsto> ''dist'', ''a.txt'' \<mapsto> ''old'']" "''dist''"
      "[\<lparr>Name = ''# sst'', Path = ''.sst''\<rparr>, \<lparr>Name = ''# a'', Path = ''node_modules''\<rparr>,
        \<lparr>Name = ''# b'', Path = ''node_modules''\<rparr>, \<lparr>Name = ''# c'', Path = ''dist''\<rparr>]"]
  by (simp add: sample_world_def gitignoreFilename_def new_sections_def section_text_def
        strings_HasSuffix_def nl_def)

lemma embed_lookup_trace [simp]:
  "embed_lookup (w\<lparr>trace := t\<rparr>) name = embed_lookup w name"
  by (simp add: embed_lookup_def)

text \<open>
  C5, amended. With a preset of zero steps, no marker and no failing system call, \<open>Create\<close>
  succeeds, changes no file but the ignore file and no directory, and appends to the ignore
  file nothing when \<open>.sst\<close> occurs in it, and otherwise once the default section: a newline
  (after one more when the content does not end in one), \<open># sst\<close>, and \<open>.sst\<close>. An ignore
  file that starts empty or missing so begins with an empty line.
\<close>

theorem Create_no_steps:
  assumes "fault w = (\<lambda>h c. None)"
    and "files w ''sst.config.ts'' = None" and "''sst.config.ts'' \<notin> dirs w"
    and "embed_lookup w (filepath_Join [''templates'', templateName, ''preset.json'']) =
           Inr (EmbFile n presetBytes)"
    and "json_Unmarshal_preset L presetBytes = Inr p" and "Steps p = []"
    and "gitignoreFilename \<notin> dirs w"
    and "old = (case files w gitignoreFilename of None \<Rightarrow> [] | Some content \<Rightarrow> content)"
  shows "fst (Create L rank templateName home w) = None \<and>
         files (snd (Create L rank templateName home w)) =
           (files w)(gitignoreFilename \<mapsto>
              old @ (if strings_Contains old ''.sst'' then []
                     else (if old \<noteq> [] \<and> \<not> strings_HasSuffix old [nl] then [nl] else [])
                            @ [nl] @ ''# sst'' @ [nl] @ ''.sst'' @ [nl])) \<and>
         dirs (snd (Create L rank templateName home w)) = dirs w"
proof -
  define w3 where
    "w3 = w\<lparr>trace := trace w @ [Os_Stat ''sst.config.ts'', Os_Getwd,
              Embed_ReadFile (filepath_Join [''templates'', templateName, ''preset.json''])]\<rparr>"
  have w3: "fault w3 = (\<lambda>h c. None)" "gitignoreFilename \<notin> dirs w3" "files w3 = files w"
    "dirs w3 = dirs w"
    using assms by (simp_all add: w3_def)
  have run: "Create L rank templateName home w =
               update_gitignore [\<lparr>Name = ''# sst'', Path = ''.sst''\<rparr>] w3"
    using assms(1-6)
    by (simp add: Create_def os_Stat_def os_Getwd_def syscall_def record_call_def
          Templates_ReadFile_def initial_run_def flush_packageJsons_def w3_def)
  have old: "old = (case files w3 gitignoreFilename of None \<Rightarrow> [] | Some content \<Rightarrow> content)"
    using assms(8) w3(3) by simp
  have dirs: "dirs (snd (update_gitignore [\<lparr>Name = ''# sst'', Path = ''.sst''\<rparr>] w3)) = dirs w3"
    using w3(1,2)
    by (simp add: update_gitignore_def os_OpenFile_def io_ReadAll_def syscall_def
          record_call_def file_WriteString_def Let_def split: option.splits)
  from update_gitignore_result [OF w3(1,2) old, of "[\<lparr>Name = ''# sst'', Path = ''.sst''\<rparr>]"]
  show ?thesis
    unfolding run using w3(3,4) dirs by (simp add: new_sections_def section_text_def)
qed

theorem Create_no_steps_witness:
  "fst (Create sample_lib no_rank ''empty'' ''home'' (sample_world Map.empty)) = None \<and>
   files (snd (Create sample_lib no_rank ''empty'' ''home'' (sample_world Map.empty))) =
     [''.gitignore'' \<mapsto> ''\<newline># sst\<newline>.sst\<newline>''] \<and>
   dirs (snd (Create sample_lib no_rank ''empty'' ''home'' (sample_world Map.empty))) = {''.''}"
  using Create_no_steps [of "sample_world Map.empty" "''empty''" "''preset.json''" preset_empty
      sample_lib "\<lparr>Steps = []\<rparr>" "[]" no_rank "''home''"]
  by (simp add: sample_world_def sample_lib_def sample_Unmarshal_preset_def sample_Templates_def
        embed_lookup_def fs_ValidPath_def filepath_Join_def filepath_Clean_def slash_def
        gitignoreFilename_def nl_def)

subsection \<open>What holds from world to world along a run\<close>

text \<open>A relation between worlds that is reflexive and transitive and holds across every
  call of the function holds across a walk.\<close>

lemma walkDir_rel:
  assumes "\<And>w. R w w" and "\<And>a b c. R a b \<Longrightarrow> R b c \<Longrightarrow> R a c"
  shows "(\<And>name d w. R w (snd (fn name d w))) \<Longrightarrow> R w (snd (walkDir fn name e w))"
    and "(\<And>name d w. R w (snd (fn name d w))) \<Longrightarrow> R w (snd (walkDirs fn name es w))"
proof (induction fn name e w and fn name es w rule: walkDir_walkDirs.induct)
  case (1 fn name n c w)
  then show ?case by simp
next
  case (2 fn name n ds w)
  show ?case
  proof (cases "fn name (Some (EmbDir n ds)) w")
    case (Pair res w1)
    have a: "R w w1"
      using "2.prems" Pair by (metis snd_conv)
    show ?thesis
    proof (cases res)
      case None
      have "R w1 (snd (walkDirs fn name ds w1))"
        using "2.IH" [OF Pair [symmetric] None "2.prems"] .
      then show ?thesis
        using Pair None assms(2) [OF a] by simp
    next
      case (Some err)
      then show ?thesis using Pair a by simp
    qed
  qed
next
  case (3 fn name w)
  then show ?case using assms(1) by simp
next
  case (4 fn name d1 ds w)
  show ?case
  proof (cases "walkDir fn (filepath_Join [name, entry_name d1]) d1 w")
    case (Pair res w1)
    have a: "R w w1"
      using "4.IH"(1) "4.prems" Pair by simp
    show ?thesis
    proof (cases res)
      case None
      have "R w1 (snd (walkDirs fn name ds w1))"
        using "4.IH"(2) [OF Pair [symmetric] None "4.prems"] .
      then show ?thesis
        using Pair None assms(2) [OF a] by simp
    next
      case (Some err)
      then show ?thesis using Pair a by simp
    qed
  qed
qed

text \<open>No call changes what the registry answers.\<close>

lemma registry_snd:
  "registry (snd (os_Stat name w)) = registry w"
  "registry (snd (os_Open name w)) = registry w"
  "registry (snd (file_Read name w)) = registry w"
  "registry (snd (os_ReadFile name w)) = registry w"
  "registry (snd (os_Create name w)) = registry w"
  "registry (snd (file_WriteString name s w)) = registry w"
  "registry (snd (os_MkdirAll name w)) = registry w"
  "registry (snd (http_Get name w)) = registry w"
  "registry (snd (Templates_ReadFile name w)) = registry w"
  by (simp_all add: os_Stat_def os_Open_def file_Read_def os_ReadFile_def os_Create_def
        file_WriteString_def os_MkdirAll_def http_Get_def Templates_ReadFile_def syscall_def
        record_call_def Let_def split: option.splits sum.splits entry.splits)

lemma read_packageJson_registry:
  "registry (snd (read_packageJson L fname r w)) = registry w"
proof (cases "os_Open fname w")
  case (Pair a w1)
  have w1: "registry w1 = registry w"
    using registry_snd(2) [of fname w] Pair by simp
  show ?thesis
  proof (cases a)
    case (Inl err)
    then show ?thesis using Pair w1 by (simp add: read_packageJson_def)
  next
    case (Inr f)
    obtain b w2 where rd: "file_Read f w1 = (b, w2)"
      by (cases "file_Read f w1")
    have "registry w2 = registry w"
      using registry_snd(3) [of f w1] rd w1 by simp
    then show ?thesis
      using Pair Inr rd by (simp add: read_packageJson_def split: sum.splits)
  qed
qed

lemma resolve_version_registry:
  "registry (snd (resolve_version L n w)) = registry w"
  by (simp add: resolve_version_def http_Get_def record_call_def split: sum.splits)

lemma resolve_version_same:
  "registry w1 = registry w \<Longrightarrow> fst (resolve_version L n w1) = fst (resolve_version L n w)"
  by (simp add: resolve_version_def http_Get_def split: sum.splits)

lemma npm_step_registry: "registry (snd (npm_step L stp r w)) = registry w"
proof (cases "json_Unmarshal_npmStep L (Properties stp)")
  case (Inl err)
  then show ?thesis by (simp add: npm_step_def)
next
  case (Inr n)
  obtain a w1 where rd: "read_packageJson L (npmStep.File n) r w = (a, w1)"
    by (cases "read_packageJson L (npmStep.File n) r w")
  have w1: "registry w1 = registry w"
    using read_packageJson_registry [of L "npmStep.File n" r w] rd by simp
  have "registry (snd (resolve_version L n w1)) = registry w"
    using resolve_version_registry [of L n w1] w1 by simp
  then show ?thesis
    using Inr rd w1
    by (auto simp: npm_step_def Let_def split: sum.splits prod.splits)
qed

lemma patch_step_registry: "registry (snd (patch_step L stp r w)) = registry w"
  by (auto simp: patch_step_def registry_snd split: sum.splits prod.splits)
    (metis registry_snd(4,5,6) snd_conv)+

lemma tmpl_Execute_registry:
  "registry (snd (tmpl_Execute L tmpl out App Home w)) = registry w"
  by (auto simp: tmpl_Execute_def split: sum.splits prod.splits option.splits)
    (metis registry_snd(6) snd_conv)+

lemma copy_fn_registry: "registry (snd (copy_fn L root dn home path d w)) = registry w"
proof (cases d)
  case None
  then show ?thesis by (simp add: copy_fn_def)
next
  case (Some e)
  show ?thesis
  proof (cases "entry_IsDir e")
    case True
    then show ?thesis
      using Some by (simp add: copy_fn_def Let_def registry_snd)
  next
    case False
    obtain a w1 where rf: "Templates_ReadFile path w = (a, w1)"
      by (cases "Templates_ReadFile path w")
    have w1: "registry w1 = registry w"
      using registry_snd(9) [of path w] rf by simp
    show ?thesis
    proof (cases a)
      case (Inl err)
      then show ?thesis using Some False rf w1 by (simp add: copy_fn_def)
    next
      case (Inr src)
      define name where "name = filepath_Join [''.'', strings_TrimPrefix path root]"
      obtain err w2 where st: "os_Stat name w1 = (err, w2)"
        by (cases "os_Stat name w1")
      have w2: "registry w2 = registry w"
        using registry_snd(1) [of name w1] st w1 by simp
      obtain c w3 where cr: "os_Create name w2 = (c, w3)"
        by (cases "os_Create name w2")
      have w3: "registry w3 = registry w"
        using registry_snd(5) [of name w2] cr w2 by simp
      show ?thesis
        using Some False rf Inr st cr w2 w3 tmpl_Execute_registry [of L _ _ dn home w3]
        by (simp add: copy_fn_def Let_def name_def [symmetric] split: sum.splits)
    qed
  qed
qed

lemma copy_step_registry:
  "registry (snd (copy_step L templateName home directoryName w)) = registry w"
proof -
  let ?root = "filepath_Join [''templates'', templateName, ''files'']"
  let ?fn = "copy_fn L ?root directoryName home"
  have walk: "registry (snd (walkDir ?fn name e w1)) = registry w1" for name e w1
    by (rule walkDir_rel(1) [of "\<lambda>w w'. registry w' = registry w" ?fn])
      (simp_all add: copy_fn_registry)
  show ?thesis
    by (simp add: copy_step_def Let_def fs_WalkDir_def walk copy_fn_registry record_call_def
          split: sum.splits)
qed

lemma run_step_registry:
  "registry (snd (run_step L templateName home directoryName stp r w)) = registry w"
proof -
  have "registry (snd (case copy_step L templateName home directoryName w of
                         (Some err, w1) \<Rightarrow> (Inl err, w1)
                       | (None, w1) \<Rightarrow> (Inr r, w1))) = registry w"
    using copy_step_registry [of L templateName home directoryName w]
    by (auto split: prod.splits option.splits)
  moreover have "registry (snd (gitignore_step L stp r w)) = registry w"
    by (simp add: gitignore_step_def split: sum.splits)
  ultimately show ?thesis
    by (simp add: run_step_def npm_step_registry patch_step_registry)
qed

lemma run_steps_registry:
  "registry (snd (run_steps L templateName home directoryName stps r w)) = registry w"
proof (induction stps arbitrary: r w)
  case Nil
  then show ?case by simp
next
  case (Cons stp stps)
  show ?case
  proof (cases "run_step L templateName home directoryName stp r w")
    case (Pair res w1)
    have "registry w1 = registry w"
      using run_step_registry [of L templateName home directoryName stp r w] Pair by simp
    then show ?thesis
      using Pair Cons.IH by (cases res) simp_all
  qed
qed

subsection \<open>Dependencies: the last write wins\<close>

lemma find_target_absent:
  "list_all (\<lambda>i. fst i \<noteq> field) doc \<Longrightarrow> find_target field doc acc = Inr acc"
  by (induction doc arbitrary: acc) auto

lemma find_target_append:
  "find_target field (xs @ ys) acc =
     (case find_target field xs acc of Inl e \<Rightarrow> Inl e | Inr t \<Rightarrow> find_target field ys t)"
  by (induction xs arbitrary: acc) (auto split: jvalue.splits)

lemma find_target_Some_acc:
  "find_target field doc (Some m) \<noteq> Inr None"
  by (induction doc arbitrary: m) (auto split: jvalue.splits)

lemma find_target_None:
  "find_target field doc None = Inr None \<Longrightarrow> list_all (\<lambda>i. fst i \<noteq> field) doc"
  by (induction doc) (auto split: jvalue.splits if_splits simp: find_target_Some_acc)

lemma find_target_present:
  "find_target field doc None = Inr (Some m) \<Longrightarrow> \<not> list_all (\<lambda>i. fst i \<noteq> field) doc"
  using find_target_absent [of field doc None] by auto

lemma find_target_assign:
  "find_target field doc acc = Inr (Some m) \<Longrightarrow> \<not> list_all (\<lambda>i. fst i \<noteq> field) doc \<Longrightarrow>
   find_target field (assign_target field k v doc) acc' = Inr (Some (m(k \<mapsto> v)))"
proof (induction doc arbitrary: acc acc')
  case Nil
  then show ?case by simp
next
  case (Cons item items)
  show ?case
  proof (cases "fst item = field")
    case True
    then obtain m' where m': "snd item = JMap m'"
      using Cons.prems(1) by (auto split: jvalue.splits)
    show ?thesis
    proof (cases "list_all (\<lambda>i. fst i \<noteq> field) items")
      case all: True
      then have "m = m'"
        using Cons.prems(1) True m' by (simp add: find_target_absent)
      then show ?thesis
        using True m' all by (auto simp: find_target_absent fun_eq_iff)
    next
      case False
      then show ?thesis
        using Cons.IH [of "Some m'" "Some m'"] Cons.prems(1) True m' by simp
    qed
  next
    case False
    then show ?thesis
      using Cons.IH [of acc acc'] Cons.prems by simp
  qed
qed

lemma assign_target_keys: "map fst (assign_target field k v doc) = map fst doc"
  by (induction doc) auto

lemma npm_step_sets_entry:
  assumes "npm_step L stp r w = (Inr r', w')"
    and "json_Unmarshal_npmStep L (Properties stp) = Inr n"
  shows "\<exists>doc m version.
           fst (resolve_version L n w) = Inr version \<and>
           map_of (packageJsons r') (npmStep.File n) = Some doc \<and>
           find_target (npm_field n) doc None = Inr (Some m) \<and>
           m (Package n) = Some (JString version)"
proof -
  obtain packageJson r1 w1 where
    rd: "read_packageJson L (npmStep.File n) r w = (Inr (packageJson, r1), w1)"
    using assms by (auto simp: npm_step_def split: prod.splits sum.splits)
  obtain target where tg: "find_target (npm_field n) packageJson None = Inr target"
    using assms rd by (auto simp: npm_step_def split: prod.splits sum.splits)
  obtain version w2 where rv: "resolve_version L n w1 = (Inr version, w2)"
    using assms rd tg by (auto simp: npm_step_def Let_def split: prod.splits sum.splits)
  have "registry w1 = registry w"
    using read_packageJson_registry [of L "npmStep.File n" r w] rd by simp
  from resolve_version_same [OF this, of L n]
  have version: "fst (resolve_version L n w) = Inr version"
    using rv by simp
  define packageJson' where
    "packageJson' = (case target of
        None \<Rightarrow> packageJson @ [(npm_field n, JMap Map.empty)] | Some m \<Rightarrow> packageJson)"
  have r': "packageJsons r' = AList.update (npmStep.File n)
              (assign_target (npm_field n) (Package n) (JString version) packageJson')
              (packageJsons r1)"
    using assms rd tg rv by (auto simp: npm_step_def packageJson'_def Let_def)
  obtain m0 where m0: "find_target (npm_field n) packageJson' None = Inr (Some m0)"
  proof (cases target)
    case None
    then have "list_all (\<lambda>i. fst i \<noteq> npm_field n) packageJson"
      using tg find_target_None by blast
    then have "find_target (npm_field n) packageJson' None = Inr (Some Map.empty)"
      using None by (simp add: packageJson'_def find_target_append find_target_absent)
    then show ?thesis using that by blast
  next
    case (Some m)
    then show ?thesis using that tg by (simp add: packageJson'_def)
  qed
  have "find_target (npm_field n)
          (assign_target (npm_field n) (Package n) (JString version) packageJson') None =
        Inr (Some (m0(Package n \<mapsto> JString version)))"
    using find_target_assign [OF m0 find_target_present [OF m0]] .
  then show ?thesis
    using r' version by (auto simp: update_conv')
qed

lemma npm_step_cached:
  assumes "npm_step L stp r w = (Inr r', w')"
    and "json_Unmarshal_npmStep L (Properties stp) = Inr n"
    and "map_of (packageJsons r) (npmStep.File n) = Some doc"
    and "find_target (npm_field n) doc None = Inr (Some m)"
  shows "\<exists>version.
           fst (resolve_version L n w) = Inr version \<and>
           packageJsons r' =
             AList.update (npmStep.File n)
               (assign_target (npm_field n) (Package n) (JString version) doc) (packageJsons r)"
proof -
  have "doc \<noteq> []"
    using assms(4) by auto
  then have rd: "read_packageJson L (npmStep.File n) r w = (Inr (doc, r), w)"
    using assms(3) by (simp add: read_packageJson_def cached_def)
  obtain version w2 where rv: "resolve_version L n w = (Inr version, w2)"
    using assms(1,2,4) rd by (auto simp: npm_step_def Let_def split: prod.splits sum.splits)
  show ?thesis
    using assms(1,2,4) rd rv by (auto simp: npm_step_def Let_def)
qed

lemma cached_update:
  "cached (AList.update k v al) k' = (if k' = k then v else cached al k')"
  by (simp add: cached_def update_conv')

lemma find_target_assign_other:
  "field' \<noteq> field \<Longrightarrow>
   find_target field (assign_target field' k v doc) acc = find_target field doc acc"
  by (induction doc arbitrary: acc) (auto split: jvalue.splits)

lemma find_target_snoc_other:
  "field' \<noteq> field \<Longrightarrow> find_target field (doc @ [(field', x)]) acc = find_target field doc acc"
  by (simp add: find_target_append split: sum.splits)

lemma npm_step_shape:
  assumes "npm_step L stp r w = (Inr r', w')"
    and "json_Unmarshal_npmStep L (Properties stp) = Inr n"
  shows "\<exists>packageJson target version pjs1.
           (cached (packageJsons r) (npmStep.File n) \<noteq> [] \<longrightarrow>
              packageJson = cached (packageJsons r) (npmStep.File n) \<and> pjs1 = packageJsons r) \<and>
           (pjs1 = packageJsons r \<or>
              pjs1 = AList.update (npmStep.File n) packageJson (packageJsons r)) \<and>
           find_target (npm_field n) packageJson None = Inr target \<and>
           packageJsons r' =
             AList.update (npmStep.File n)
               (assign_target (npm_field n) (Package n) (JString version)
                  (case target of
                     None \<Rightarrow> packageJson @ [(npm_field n, JMap Map.empty)]
                   | Some m \<Rightarrow> packageJson))
               pjs1"
proof -
  obtain packageJson r1 w1 where
    rd: "read_packageJson L (npmStep.File n) r w = (Inr (packageJson, r1), w1)"
    using assms by (auto simp: npm_step_def split: prod.splits sum.splits)
  obtain target where tg: "find_target (npm_field n) packageJson None = Inr target"
    using assms rd by (auto simp: npm_step_def split: prod.splits sum.splits)
  obtain version w2 where rv: "resolve_version L n w1 = (Inr version, w2)"
    using assms rd tg by (auto simp: npm_step_def Let_def split: prod.splits sum.splits)
  have r': "packageJsons r' = AList.update (npmStep.File n)
              (assign_target (npm_field n) (Package n) (JString version)
                 (case target of
                    None \<Rightarrow> packageJson @ [(npm_field n, JMap Map.empty)]
                  | Some m \<Rightarrow> packageJson))
              (packageJsons r1)"
    using assms rd tg rv by (auto simp: npm_step_def Let_def)
  have c: "cached (packageJsons r) (npmStep.File n) \<noteq> [] \<longrightarrow>
             packageJson = cached (packageJsons r) (npmStep.File n) \<and>
             packageJsons r1 = packageJsons r"
    using rd by (auto simp: read_packageJson_def)
  have d: "packageJsons r1 = packageJsons r \<or>
           packageJsons r1 = AList.update (npmStep.File n) packageJson (packageJsons r)"
    using rd by (auto simp: read_packageJson_def split: prod.splits sum.splits if_splits)
  show ?thesis
    using c d tg r' by blast
qed

lemma registered_cached:
  "registered r file field pkg = Some v \<Longrightarrow>
   \<exists>m. find_target field (cached (packageJsons r) file) None = Inr (Some m) \<and> m pkg = Some v"
  by (auto simp: registered_def split: sum.splits option.splits)

lemma npm_step_keeps_registered:
  assumes "npm_step L stp r w = (Inr r', w')"
    and "json_Unmarshal_npmStep L (Properties stp) = Inr n"
    and "\<not> (npmStep.File n = file \<and> npm_field n = field \<and> Package n = pkg)"
    and "registered r file field pkg = Some v"
  shows "registered r' file field pkg = Some v"
proof -
  obtain m where m: "find_target field (cached (packageJsons r) file) None = Inr (Some m)"
      "m pkg = Some v"
    using registered_cached [OF assms(4)] by blast
  then have ne: "cached (packageJsons r) file \<noteq> []"
    by auto
  obtain packageJson target version pjs1 where sh:
    "cached (packageJsons r) (npmStep.File n) \<noteq> [] \<longrightarrow>
       packageJson = cached (packageJsons r) (npmStep.File n) \<and> pjs1 = packageJsons r"
    "pjs1 = packageJsons r \<or> pjs1 = AList.update (npmStep.File n) packageJson (packageJsons r)"
    "find_target (npm_field n) packageJson None = Inr target"
    "packageJsons r' =
       AList.update (npmStep.File n)
         (assign_target (npm_field n) (Package n) (JString version)
            (case target of
               None \<Rightarrow> packageJson @ [(npm_field n, JMap Map.empty)]
             | Some m \<Rightarrow> packageJson))
         pjs1"
    using npm_step_shape [OF assms(1,2)] by blast
  show ?thesis
  proof (cases "npmStep.File n = file")
    case False
    then have "cached (packageJsons r') file = cached (packageJsons r) file"
      using sh(2,4) by (auto simp: cached_update)
    then show ?thesis
      using assms(4) by (simp add: registered_def)
  next
    case True
    then have pj: "packageJson = cached (packageJsons r) file" "pjs1 = packageJsons r"
      using sh(1) ne by auto
    show ?thesis
    proof (cases "npm_field n = field")
      case same: True
      then have "target = Some m"
        using sh(3) m(1) pj(1) by simp
      then have "find_target field (cached (packageJsons r') file) None =
                   Inr (Some (m(Package n \<mapsto> JString version)))"
        using sh(4) True same pj m(1) find_target_assign [OF m(1) find_target_present [OF m(1)]]
        by (simp add: cached_update)
      moreover have "Package n \<noteq> pkg"
        using assms(3) True same by simp
      ultimately show ?thesis
        using m(2) by (simp add: registered_def)
    next
      case False
      then have "find_target field (cached (packageJsons r') file) None =
                   find_target field (cached (packageJsons r) file) None"
        using sh(4) True pj
        by (cases target)
          (simp_all add: cached_update find_target_assign_other find_target_snoc_other)
      then show ?thesis
        using assms(4) by (simp add: registered_def)
    qed
  qed
qed

lemma run_step_packageJsons:
  assumes "run_step L tn home dn stp r w = (Inr r', w')" and "Type stp \<noteq> ''npm''"
  shows "packageJsons r' = packageJsons r"
  using assms
  by (auto simp: run_step_def patch_step_def gitignore_step_def
        split: if_splits prod.splits sum.splits option.splits)

lemma run_step_keeps_registered:
  assumes "run_step L tn home dn stp r w = (Inr r', w')"
    and "\<not> writes_entry L stp file field pkg"
    and "registered r file field pkg = Some v"
  shows "registered r' file field pkg = Some v"
proof (cases "Type stp = ''npm''")
  case False
  then show ?thesis
    using run_step_packageJsons [OF assms(1)] assms(3) by (simp add: registered_def)
next
  case True
  then have st: "npm_step L stp r w = (Inr r', w')"
    using assms(1) by (simp add: run_step_def)
  then obtain n where n: "json_Unmarshal_npmStep L (Properties stp) = Inr n"
    by (auto simp: npm_step_def split: sum.splits)
  then have "\<not> (npmStep.File n = file \<and> npm_field n = field \<and> Package n = pkg)"
    using assms(2) True by (simp add: writes_entry_def)
  from npm_step_keeps_registered [OF st n this assms(3)] show ?thesis .
qed

lemma run_steps_keep_registered:
  assumes "run_steps L tn home dn stps r w = (Inr r', w')"
    and "list_all (\<lambda>t. \<not> writes_entry L t file field pkg) stps"
    and "registered r file field pkg = Some v"
  shows "registered r' file field pkg = Some v"
  using assms
proof (induction stps arbitrary: r w)
  case Nil
  then show ?case by simp
next
  case (Cons stp stps)
  obtain r1 w1 where one: "run_step L tn home dn stp r w = (Inr r1, w1)"
    and rest: "run_steps L tn home dn stps r1 w1 = (Inr r', w')"
    using Cons.prems(1) by (auto split: prod.splits sum.splits)
  have "registered r1 file field pkg = Some v"
    using run_step_keeps_registered [OF one] Cons.prems(2,3) by simp
  then show ?case
    using Cons.IH [OF rest] Cons.prems(2) by simp
qed

lemma run_step_distinct:
  assumes "run_step L tn home dn stp r w = (Inr r', w')"
    and "distinct (map fst (packageJsons r))"
  shows "distinct (map fst (packageJsons r'))"
proof (cases "Type stp = ''npm''")
  case False
  then show ?thesis
    using run_step_packageJsons [OF assms(1)] assms(2) by simp
next
  case True
  then have st: "npm_step L stp r w = (Inr r', w')"
    using assms(1) by (simp add: run_step_def)
  then obtain n where n: "json_Unmarshal_npmStep L (Properties stp) = Inr n"
    by (auto simp: npm_step_def split: sum.splits)
  from npm_step_shape [OF st n] show ?thesis
    using assms(2) by (auto simp: distinct_update)
qed

lemma run_steps_distinct:
  assumes "run_steps L tn home dn stps r w = (Inr r', w')"
    and "distinct (map fst (packageJsons r))"
  shows "distinct (map fst (packageJsons r'))"
  using assms
proof (induction stps arbitrary: r w)
  case Nil
  then show ?case by simp
next
  case (Cons stp stps)
  obtain r1 w1 where one: "run_step L tn home dn stp r w = (Inr r1, w1)"
    and rest: "run_steps L tn home dn stps r1 w1 = (Inr r', w')"
    using Cons.prems(1) by (auto split: prod.splits sum.splits)
  show ?case
    using Cons.IH [OF rest run_step_distinct [OF one Cons.prems(2)]] .
qed

lemma os_WriteFile_other:
  "os_WriteFile name bytes w = (res, w') \<Longrightarrow> file \<noteq> name \<Longrightarrow> files w' file = files w file"
  by (auto simp: os_WriteFile_def syscall_def record_call_def split: option.splits if_splits)

lemma os_WriteFile_written:
  "os_WriteFile name bytes w = (None, w') \<Longrightarrow> files w' name = Some bytes"
  by (auto simp: os_WriteFile_def syscall_def record_call_def split: option.splits if_splits)

lemma write_packageJsons_other:
  "write_packageJsons L fcs w = (res, w') \<Longrightarrow> file \<notin> fst ` set fcs \<Longrightarrow>
   files w' file = files w file"
proof (induction fcs arbitrary: w)
  case Nil
  then show ?case by simp
next
  case (Cons fc rest)
  show ?case
  proof (cases "json_MarshalIndent L (snd fc) [] ''  ''")
    case (Inl err)
    then show ?thesis using Cons.prems by simp
  next
    case (Inr bytes)
    obtain res1 w1 where wf: "os_WriteFile (fst fc) bytes w = (res1, w1)"
      by (cases "os_WriteFile (fst fc) bytes w")
    have keep: "files w1 file = files w file"
      using os_WriteFile_other [OF wf] Cons.prems(2) by auto
    show ?thesis
    proof (cases res1)
      case None
      then have "write_packageJsons L rest w1 = (res, w')"
        using Cons.prems(1) Inr wf by simp
      from Cons.IH [OF this] show ?thesis
        using Cons.prems(2) keep by simp
    next
      case (Some err)
      then show ?thesis
        using Cons.prems(1) Inr wf keep by simp
    qed
  qed
qed

lemma write_packageJsons_written:
  "write_packageJsons L fcs w = (None, w') \<Longrightarrow> distinct (map fst fcs) \<Longrightarrow>
   (file, content) \<in> set fcs \<Longrightarrow>
   \<exists>bytes. json_MarshalIndent L content [] ''  '' = Inr bytes \<and> files w' file = Some bytes"
proof (induction fcs arbitrary: w)
  case Nil
  then show ?case by simp
next
  case (Cons fc rest)
  obtain bytes where mb: "json_MarshalIndent L (snd fc) [] ''  '' = Inr bytes"
    using Cons.prems(1) by (cases "json_MarshalIndent L (snd fc) [] ''  ''") auto
  obtain w1 where wf: "os_WriteFile (fst fc) bytes w = (None, w1)"
    and rest: "write_packageJsons L rest w1 = (None, w')"
    using Cons.prems(1) mb by (auto split: prod.splits option.splits)
  show ?case
  proof (cases "(file, content) = fc")
    case True
    then have "file \<notin> fst ` set rest"
      using Cons.prems(2) by (auto simp: image_iff)
    from write_packageJsons_other [OF rest this] show ?thesis
      using os_WriteFile_written [OF wf] mb True by auto
  next
    case False
    then have "(file, content) \<in> set rest"
      using Cons.prems(3) by simp
    from Cons.IH [OF rest _ this] show ?thesis
      using Cons.prems(2) by simp
  qed
qed

lemma flush_packageJsons_written:
  assumes "flush_packageJsons L rank pjs w = (None, w')"
    and "distinct (map fst pjs)" and "cached pjs file \<noteq> []"
  shows "\<exists>bytes. json_MarshalIndent L (cached pjs file) [] ''  '' = Inr bytes \<and>
           files w' file = Some bytes"
proof -
  have mem: "(file, cached pjs file) \<in> set (sort_key (\<lambda>fc. rank (fst fc)) pjs)"
    using assms(3) by (auto simp: cached_def split: option.splits dest: map_of_SomeD)
  have "distinct (map fst (sort_key (\<lambda>fc. rank (fst fc)) pjs))"
    using assms(2) by (simp add: distinct_map)
  from write_packageJsons_written [OF assms(1) [unfolded flush_packageJsons_def] this mem]
  show ?thesis .
qed

text \<open>
  C4. Take a run of the step loop that succeeds, and in it an npm step such that no later
  step is an npm step for the same file, field and package. The step's version is what
  \<open>resolve_version\<close> gives: the version of the step when it has one, what the registry
  answers otherwise. Then
  \<^item> at the end of the loop the document of the file holds, under the field, this step's
    version for the package (so of two steps with different packages both versions are
    there, each being the last for its package, and of two steps for the same package the
    later one's version is);
  \<^item> the config flush, when it succeeds, leaves in the file the marshalled form of that
    very document;
  \<^item> when the field already had its map before the step, the step keeps the keys of the
    document as they were and changes the map at the package only: the value is replaced
    in place and nothing is appended.
\<close>

theorem npm_last_write_wins:
  assumes "run_steps L templateName home directoryName (pre @ stp # post) initial_run w =
             (Inr r, w')"
    and "Type stp = ''npm''"
    and "json_Unmarshal_npmStep L (Properties stp) = Inr n"
    and "list_all (\<lambda>t. \<not> writes_entry L t (npmStep.File n) (npm_field n) (Package n)) post"
  shows "\<exists>version.
           fst (resolve_version L n w) = Inr version \<and>
           registered r (npmStep.File n) (npm_field n) (Package n) = Some (JString version) \<and>
           (\<forall>rank w''.
              flush_packageJsons L rank (packageJsons r) w' = (None, w'') \<longrightarrow>
              (\<exists>bytes.
                 json_MarshalIndent L (cached (packageJsons r) (npmStep.File n)) [] ''  '' =
                   Inr bytes \<and>
                 files w'' (npmStep.File n) = Some bytes)) \<and>
           (\<forall>r0 w0 r1 w1 m0.
              run_steps L templateName home directoryName pre initial_run w = (Inr r0, w0) \<and>
              run_step L templateName home directoryName stp r0 w0 = (Inr r1, w1) \<and>
              find_target (npm_field n) (cached (packageJsons r0) (npmStep.File n)) None =
                Inr (Some m0) \<longrightarrow>
              map fst (cached (packageJsons r1) (npmStep.File n)) =
                map fst (cached (packageJsons r0) (npmStep.File n)) \<and>
              find_target (npm_field n) (cached (packageJsons r1) (npmStep.File n)) None =
                Inr (Some (m0(Package n \<mapsto> JString version))))"
proof -
  obtain r0 w0 where pre: "run_steps L templateName home directoryName pre initial_run w = (Inr r0, w0)"
    and tail: "run_steps L templateName home directoryName (stp # post) r0 w0 = (Inr r, w')"
    using assms(1) by (auto simp: run_steps_append split: prod.splits sum.splits)
  obtain r1 w1 where one: "run_step L templateName home directoryName stp r0 w0 = (Inr r1, w1)"
    and post: "run_steps L templateName home directoryName post r1 w1 = (Inr r, w')"
    using tail by (auto split: prod.splits sum.splits)
  have st: "npm_step L stp r0 w0 = (Inr r1, w1)"
    using one assms(2) by (simp add: run_step_def)
  have reg: "registry w0 = registry w"
    using run_steps_registry [of L templateName home directoryName pre initial_run w] pre by simp
  obtain doc m version where dm: "fst (resolve_version L n w0) = Inr version"
      "map_of (packageJsons r1) (npmStep.File n) = Some doc"
      "find_target (npm_field n) doc None = Inr (Some m)"
      "m (Package n) = Some (JString version)"
    using npm_step_sets_entry [OF st assms(3)] by blast
  have version: "fst (resolve_version L n w) = Inr version"
    using dm(1) resolve_version_same [OF reg, of L n] by simp
  have "registered r1 (npmStep.File n) (npm_field n) (Package n) = Some (JString version)"
    using dm(2,3,4) by (simp add: registered_def cached_def)
  from run_steps_keep_registered [OF post assms(4) this]
  have A: "registered r (npmStep.File n) (npm_field n) (Package n) = Some (JString version)" .
  have "distinct (map fst (packageJsons initial_run))"
    by (simp add: initial_run_def)
  from run_steps_distinct [OF assms(1) this]
  have dist: "distinct (map fst (packageJsons r))" .
  have ne: "cached (packageJsons r) (npmStep.File n) \<noteq> []"
    using registered_cached [OF A] by auto
  have B: "\<forall>rank w''.
            flush_packageJsons L rank (packageJsons r) w' = (None, w'') \<longrightarrow>
            (\<exists>bytes.
               json_MarshalIndent L (cached (packageJsons r) (npmStep.File n)) [] ''  '' =
                 Inr bytes \<and>
               files w'' (npmStep.File n) = Some bytes)"
    using flush_packageJsons_written [OF _ dist ne] by blast
  have C: "map fst (cached (packageJsons r1') (npmStep.File n)) =
              map fst (cached (packageJsons r0') (npmStep.File n)) \<and>
            find_target (npm_field n) (cached (packageJsons r1') (npmStep.File n)) None =
              Inr (Some (m0(Package n \<mapsto> JString version)))"
    if "run_steps L templateName home directoryName pre initial_run w = (Inr r0', w0')"
      and "run_step L templateName home directoryName stp r0' w0' = (Inr r1', w1')"
      and "find_target (npm_field n) (cached (packageJsons r0') (npmStep.File n)) None =
              Inr (Some m0)"
    for r0' w0' r1' w1' m0
  proof -
    have st': "npm_step L stp r0' w0' = (Inr r1', w1')"
      using that(2) assms(2) by (simp add: run_step_def)
    have "registry w0' = registry w"
      using run_steps_registry [of L templateName home directoryName pre initial_run w] that(1)
      by simp
    from resolve_version_same [OF this, of L n]
    have same: "fst (resolve_version L n w0') = Inr version"
      using version by simp
    have "cached (packageJsons r0') (npmStep.File n) \<noteq> []"
      using that(3) by auto
    then have mo: "map_of (packageJsons r0') (npmStep.File n) =
                 Some (cached (packageJsons r0') (npmStep.File n))"
      by (auto simp: cached_def split: option.splits)
    from npm_step_cached [OF st' assms(3) mo that(3)] same show ?thesis
      using find_target_assign [OF that(3) find_target_present [OF that(3)]]
      by (auto simp: cached_update assign_target_keys)
  qed
  show ?thesis
    using version A B C by blast
qed

theorem npm_last_write_wins_witness:
  "\<not> isl (fst npm_run) \<and>
   registered (projr (fst npm_run)) ''package.json'' ''dependencies'' ''hono'' =
     Some (JString ''2.3.1'') \<and>
   registered (projr (fst npm_run)) ''package.json'' ''dependencies'' ''sst'' =
     Some (JString ''3.1.0'') \<and>
   fst (flush_packageJsons sample_lib no_rank (packageJsons (projr (fst npm_run))) (snd npm_run)) =
     None \<and>
   (\<exists>bytes.
      json_MarshalIndent sample_lib (cached (packageJsons (projr (fst npm_run))) ''package.json'')
        [] ''  '' = Inr bytes \<and>
      files (snd (flush_packageJsons sample_lib no_rank (packageJsons (projr (fst npm_run)))
                   (snd npm_run))) ''package.json'' = Some bytes)"
proof -
  have ok: "\<not> isl (fst npm_run)"
    by code_simp
  then have run: "run_steps sample_lib ''npm'' ''home'' ''app''
          ([\<lparr>Type = ''npm'', Properties = props_sst\<rparr>]
             @ \<lparr>Type = ''npm'', Properties = props_hono_latest\<rparr>
             # [\<lparr>Type = ''npm'', Properties = props_sst_later\<rparr>])
          initial_run npm_world =
        (Inr (projr (fst npm_run)), snd npm_run)"
    by (simp add: npm_run_def npm_steps_def prod_eq_iff)
  then have run': "run_steps sample_lib ''npm'' ''home'' ''app''
          ([\<lparr>Type = ''npm'', Properties = props_sst\<rparr>,
            \<lparr>Type = ''npm'', Properties = props_hono_latest\<rparr>]
             @ \<lparr>Type = ''npm'', Properties = props_sst_later\<rparr> # [])
          initial_run npm_world =
        (Inr (projr (fst npm_run)), snd npm_run)"
    by simp
  have hono: "json_Unmarshal_npmStep sample_lib
                (Properties \<lparr>Type = ''npm'', Properties = props_hono_latest\<rparr>) =
              Inr \<lparr>Package = ''hono'', Version = [], File = ''package.json'', Dev = False\<rparr>"
    by (simp add: sample_lib_def sample_Unmarshal_npmStep_def props_hono_def props_sst_def
          props_sst_later_def props_hono_latest_def)
  have sst_later: "json_Unmarshal_npmStep sample_lib
                (Properties \<lparr>Type = ''npm'', Properties = props_sst_later\<rparr>) =
              Inr \<lparr>Package = ''sst'', Version = ''3.1.0'', File = ''package.json'', Dev = False\<rparr>"
    by (simp add: sample_lib_def sample_Unmarshal_npmStep_def props_hono_def props_sst_def
          props_sst_later_def)
  have later: "list_all (\<lambda>t. \<not> writes_entry sample_lib t ''package.json'' ''dependencies'' ''hono'')
                 [\<lparr>Type = ''npm'', Properties = props_sst_later\<rparr>]"
    by (simp add: writes_entry_def sample_lib_def sample_Unmarshal_npmStep_def props_hono_def
          props_sst_def props_sst_later_def)
  have hono_version:
    "fst (resolve_version sample_lib
            \<lparr>Package = ''hono'', Version = [], File = ''package.json'', Dev = False\<rparr> npm_world) =
       Inr ''2.3.1''"
    by (simp add: resolve_version_def http_Get_def npm_world_def sample_world_def sample_lib_def
          latest_hono_def)
  have sst_version:
    "fst (resolve_version sample_lib
            \<lparr>Package = ''sst'', Version = ''3.1.0'', File = ''package.json'', Dev = False\<rparr>
            npm_world) = Inr ''3.1.0''"
    by (simp add: resolve_version_def)
  have flushed_ok:
    "fst (flush_packageJsons sample_lib no_rank
           (packageJsons (projr (fst npm_run))) (snd npm_run)) = None"
    by code_simp
  then have flushed: "flush_packageJsons sample_lib no_rank (packageJsons (projr (fst npm_run)))
                   (snd npm_run) =
                 (None, snd (flush_packageJsons sample_lib no_rank
                               (packageJsons (projr (fst npm_run))) (snd npm_run)))"
    by (simp add: prod_eq_iff)
  have sst: "registered (projr (fst npm_run)) ''package.json'' ''dependencies'' ''sst'' =
               Some (JString ''3.1.0'')"
    using npm_last_write_wins [OF run' _ sst_later] sst_version by (auto simp: npm_field_def)
  from npm_last_write_wins [OF run _ hono] later hono_version
  have hono_entry:
    "registered (projr (fst npm_run)) ''package.json'' ''dependencies'' ''hono'' =
       Some (JString ''2.3.1'')"
    and written: "\<forall>rank w''.
       flush_packageJsons sample_lib rank (packageJsons (projr (fst npm_run))) (snd npm_run) =
         (None, w'') \<longrightarrow>
       (\<exists>bytes.
          json_MarshalIndent sample_lib
            (cached (packageJsons (projr (fst npm_run))) ''package.json'') [] ''  '' = Inr bytes \<and>
          files w'' ''package.json'' = Some bytes)"
    by (auto simp: npm_field_def)
  from written flushed have
    "\<exists>bytes.
       json_MarshalIndent sample_lib
         (cached (packageJsons (projr (fst npm_run))) ''package.json'') [] ''  '' = Inr bytes \<and>
       files (snd (flush_packageJsons sample_lib no_rank (packageJsons (projr (fst npm_run)))
                    (snd npm_run))) ''package.json'' = Some bytes"
    by blast
  then show ?thesis
    using ok hono_entry sst flushed_ok by blast
qed

subsection \<open>The order of the flushes\<close>

lemma only_calls_refl [simp]: "only_calls P w w"
  by (simp add: only_calls_def)

lemma only_calls_trans: "only_calls P w w1 \<Longrightarrow> only_calls P w1 w2 \<Longrightarrow> only_calls P w w2"
  by (auto simp: only_calls_def)

lemma only_calls_one: "trace w' = trace w @ [c] \<Longrightarrow> P c \<Longrightarrow> only_calls P w w'"
  by (simp add: only_calls_def)

lemma os_Stat_trace: "os_Stat name w = (a, w') \<Longrightarrow> trace w' = trace w @ [Os_Stat name]"
  by (auto simp: os_Stat_def syscall_def record_call_def split: option.splits if_splits)

lemma os_Getwd_trace: "os_Getwd w = (a, w') \<Longrightarrow> trace w' = trace w @ [Os_Getwd]"
  by (auto simp: os_Getwd_def syscall_def record_call_def split: option.splits)

lemma os_Open_trace: "os_Open name w = (a, w') \<Longrightarrow> trace w' = trace w @ [Os_Open name]"
  by (auto simp: os_Open_def syscall_def record_call_def split: option.splits if_splits)

lemma file_Read_trace: "file_Read name w = (a, w') \<Longrightarrow> trace w' = trace w @ [File_Read name]"
  by (auto simp: file_Read_def syscall_def record_call_def split: option.splits)

lemma os_ReadFile_trace:
  "os_ReadFile name w = (a, w') \<Longrightarrow> trace w' = trace w @ [Os_ReadFile name]"
  by (auto simp: os_ReadFile_def syscall_def record_call_def split: option.splits if_splits)

lemma os_Create_trace: "os_Create name w = (a, w') \<Longrightarrow> trace w' = trace w @ [Os_Create name]"
  by (auto simp: os_Create_def syscall_def record_call_def split: option.splits if_splits)

lemma file_WriteString_trace:
  "file_WriteString name s w = (a, w') \<Longrightarrow> trace w' = trace w @ [File_WriteString name s]"
  by (auto simp: file_WriteString_def syscall_def record_call_def split: option.splits)

lemma os_MkdirAll_trace:
  "os_MkdirAll name w = (a, w') \<Longrightarrow> trace w' = trace w @ [Os_MkdirAll name]"
  by (auto simp: os_MkdirAll_def syscall_def record_call_def Let_def split: option.splits if_splits)

lemma os_WriteFile_trace:
  "os_WriteFile name bytes w = (a, w') \<Longrightarrow> trace w' = trace w @ [Os_WriteFile name bytes]"
  by (auto simp: os_WriteFile_def syscall_def record_call_def split: option.splits if_splits)

lemma os_OpenFile_trace:
  "os_OpenFile name w = (a, w') \<Longrightarrow> trace w' = trace w @ [Os_OpenFile name]"
  by (auto simp: os_OpenFile_def syscall_def record_call_def split: option.splits if_splits)

lemma io_ReadAll_trace:
  "io_ReadAll name w = (a, w') \<Longrightarrow> trace w' = trace w @ [Io_ReadAll name]"
  by (auto simp: io_ReadAll_def syscall_def record_call_def split: option.splits)

lemma http_Get_trace: "http_Get url w = (a, w') \<Longrightarrow> trace w' = trace w @ [Http_Get url]"
  by (auto simp: http_Get_def record_call_def)

lemma Templates_ReadFile_trace:
  "Templates_ReadFile name w = (a, w') \<Longrightarrow> trace w' = trace w @ [Embed_ReadFile name]"
  by (auto simp: Templates_ReadFile_def record_call_def split: sum.splits entry.splits)

lemmas step_traces = os_Stat_trace os_Open_trace file_Read_trace os_ReadFile_trace os_Create_trace
  file_WriteString_trace os_MkdirAll_trace http_Get_trace Templates_ReadFile_trace

lemma npm_step_calls:
  "npm_step L stp r w = (a, w') \<Longrightarrow> only_calls is_step_call w w'"
  by (auto simp: npm_step_def read_packageJson_def resolve_version_def only_calls_def Let_def
        split: sum.splits prod.splits if_splits dest!: step_traces)

lemma snd_traces:
  "trace (snd (os_Stat name w)) = trace w @ [Os_Stat name]"
  "trace (snd (os_Open name w)) = trace w @ [Os_Open name]"
  "trace (snd (file_Read name w)) = trace w @ [File_Read name]"
  "trace (snd (os_ReadFile name w)) = trace w @ [Os_ReadFile name]"
  "trace (snd (os_Create name w)) = trace w @ [Os_Create name]"
  "trace (snd (file_WriteString name s w)) = trace w @ [File_WriteString name s]"
  "trace (snd (os_MkdirAll name w)) = trace w @ [Os_MkdirAll name]"
  "trace (snd (http_Get name w)) = trace w @ [Http_Get name]"
  "trace (snd (Templates_ReadFile name w)) = trace w @ [Embed_ReadFile name]"
  "trace (snd (os_WriteFile name s w)) = trace w @ [Os_WriteFile name s]"
  "trace (snd (os_OpenFile name w)) = trace w @ [Os_OpenFile name]"
  "trace (snd (io_ReadAll name w)) = trace w @ [Io_ReadAll name]"
  using os_Stat_trace [of name w] os_Open_trace [of name w] file_Read_trace [of name w]
    os_ReadFile_trace [of name w] os_Create_trace [of name w]
    file_WriteString_trace [of name s w] os_MkdirAll_trace [of name w] http_Get_trace [of name w]
    Templates_ReadFile_trace [of name w] os_WriteFile_trace [of name s w]
    os_OpenFile_trace [of name w] io_ReadAll_trace [of name w]
  by (simp_all add: prod_eq_iff)

lemma patch_step_calls:
  "patch_step L stp r w = (a, w') \<Longrightarrow> only_calls is_step_call w w'"
  by (auto simp: patch_step_def only_calls_def prod_eq_iff snd_traces
        split: sum.splits prod.splits if_splits)

lemma tmpl_Execute_calls:
  "tmpl_Execute L tmpl output App Home w = (a, w') \<Longrightarrow> only_calls is_step_call w w'"
  by (auto simp: tmpl_Execute_def only_calls_def prod_eq_iff snd_traces
        split: sum.splits prod.splits if_splits option.splits)

lemma tmpl_Execute_trace:
  "tmpl_Execute L tmpl out App Home w = (a, w') \<Longrightarrow>
   \<exists>cs. trace w' = trace w @ cs \<and> list_all is_step_call cs"
  using tmpl_Execute_calls [of L tmpl out App Home w a w'] by (simp add: only_calls_def)

lemma copy_fn_pair:
  "copy_fn L root dn home path d w = (a, w') \<Longrightarrow> only_calls is_step_call w w'"
  by (auto simp: copy_fn_def only_calls_def Let_def
        split: sum.splits prod.splits if_splits option.splits
        dest!: step_traces tmpl_Execute_trace)

lemma copy_fn_calls:
  "only_calls is_step_call w (snd (copy_fn L root dn home path d w))"
  using copy_fn_pair [of L root dn home path d w] by (simp add: prod_eq_iff)

lemma walkDir_calls:
  "(\<And>name d w. only_calls P w (snd (fn name d w))) \<Longrightarrow>
   only_calls P w (snd (walkDir fn name e w))"
  by (rule walkDir_rel(1) [of "only_calls P"]) (auto intro: only_calls_trans)

lemma copy_step_calls:
  "only_calls is_step_call w (snd (copy_step L templateName home directoryName w))"
proof -
  let ?root = "filepath_Join [''templates'', templateName, ''files'']"
  let ?w1 = "record_call (Embed_Stat ?root) w"
  have a: "only_calls is_step_call w ?w1"
    by (simp add: only_calls_def record_call_def)
  have "only_calls is_step_call ?w1 (snd (fs_WalkDir (copy_fn L ?root directoryName home) ?root w))"
    using walkDir_calls [of is_step_call "copy_fn L ?root directoryName home", OF copy_fn_calls]
      copy_fn_calls
    by (simp add: fs_WalkDir_def split: sum.splits)
  from only_calls_trans [OF a this] show ?thesis
    by (simp add: copy_step_def Let_def)
qed

lemma run_step_calls:
  "only_calls is_step_call w (snd (run_step L templateName home directoryName stp r w))"
proof -
  have "only_calls is_step_call w (snd (npm_step L stp r w))"
    using npm_step_calls [of L stp r w] by (simp add: prod_eq_iff)
  moreover have "only_calls is_step_call w (snd (patch_step L stp r w))"
    using patch_step_calls [of L stp r w] by (simp add: prod_eq_iff)
  moreover have "only_calls is_step_call w
      (snd (case copy_step L templateName home directoryName w of
              (Some err, w1) \<Rightarrow> (Inl err, w1)
            | (None, w1) \<Rightarrow> (Inr r, w1)))"
    using copy_step_calls [of w L templateName home directoryName]
    by (auto split: prod.splits option.splits)
  moreover have "only_calls is_step_call w (snd (gitignore_step L stp r w))"
    by (simp add: gitignore_step_def split: sum.splits)
  ultimately show ?thesis
    by (simp add: run_step_def)
qed

lemma run_steps_calls:
  "only_calls is_step_call w (snd (run_steps L templateName home directoryName stps r w))"
proof (induction stps arbitrary: r w)
  case Nil
  then show ?case by simp
next
  case (Cons stp stps)
  show ?case
  proof (cases "run_step L templateName home directoryName stp r w")
    case (Pair res w1)
    have a: "only_calls is_step_call w w1"
      using run_step_calls [of w L templateName home directoryName stp r] Pair by simp
    show ?thesis
      using Pair a only_calls_trans [OF a Cons.IH] by (cases res) simp_all
  qed
qed

lemma write_packageJsons_trace:
  "write_packageJsons L fcs w = (None, w') \<Longrightarrow>
   \<exists>cs. trace w' = trace w @ cs \<and> list_all2 (writes_document L) fcs cs"
proof (induction fcs arbitrary: w)
  case Nil
  then show ?case by simp
next
  case (Cons fc rest)
  obtain bytes where mb: "json_MarshalIndent L (snd fc) [] ''  '' = Inr bytes"
    using Cons.prems by (cases "json_MarshalIndent L (snd fc) [] ''  ''") auto
  obtain w1 where wf: "os_WriteFile (fst fc) bytes w = (None, w1)"
    and rest: "write_packageJsons L rest w1 = (None, w')"
    using Cons.prems mb by (auto split: prod.splits option.splits)
  obtain cs where cs: "trace w' = trace w1 @ cs" "list_all2 (writes_document L) rest cs"
    using Cons.IH [OF rest] by blast
  have "writes_document L fc (Os_WriteFile (fst fc) bytes)"
    using mb by (simp add: writes_document_def)
  then have "list_all2 (writes_document L) (fc # rest) (Os_WriteFile (fst fc) bytes # cs)"
    using cs(2) by simp
  moreover have "trace w' = trace w @ Os_WriteFile (fst fc) bytes # cs"
    using cs(1) os_WriteFile_trace [OF wf] by simp
  ultimately show ?case by blast
qed

lemma write_sections_trace:
  "write_sections fname content stps w = (None, w') \<Longrightarrow>
   trace w' =
     trace w @ concat (map (section_calls fname content)
                         (filter (\<lambda>stp. \<not> strings_Contains content (Path stp)) stps))"
proof (induction stps arbitrary: w)
  case Nil
  then show ?case by simp
next
  case (Cons stp stps)
  show ?case
  proof (cases "strings_Contains content (Path stp)")
    case True
    then show ?thesis using Cons by simp
  next
    case False
    define w1 where "w1 = (if content \<noteq> [] \<and> \<not> strings_HasSuffix content [nl]
                   then snd (file_WriteString fname [nl] w) else w)"
    have t1: "trace w1 = trace w @
                (if content \<noteq> [] \<and> \<not> strings_HasSuffix content [nl]
                 then [File_WriteString fname [nl]] else [])"
      by (simp add: w1_def snd_traces)
    obtain res w2 where ws:
      "file_WriteString fname ([nl] @ Name stp @ [nl] @ Path stp @ [nl]) w1 = (res, w2)"
      by (cases "file_WriteString fname ([nl] @ Name stp @ [nl] @ Path stp @ [nl]) w1")
    have unfold: "write_sections fname content (stp # stps) w =
            (case res of Some err \<Rightarrow> (Some err, w2) | None \<Rightarrow> write_sections fname content stps w2)"
      using False ws unfolding w1_def by (simp split: option.splits)
    then have res: "res = None" and rest: "write_sections fname content stps w2 = (None, w')"
      using Cons.prems by (auto split: option.splits)
    have "trace w2 = trace w @ section_calls fname content stp"
      using file_WriteString_trace [OF ws] t1 by (simp add: section_calls_def)
    then show ?thesis
      using Cons.IH [OF rest] False by simp
  qed
qed

lemma os_OpenFile_handle: "os_OpenFile name w = (Inr f, w') \<Longrightarrow> f = name"
  by (auto simp: os_OpenFile_def syscall_def split: option.splits if_splits)

lemma update_gitignore_trace:
  assumes "update_gitignore steps w = (None, w')"
  shows "trace w' =
           trace w @ ignore_calls
             (case files w gitignoreFilename of None \<Rightarrow> [] | Some content \<Rightarrow> content) steps"
proof -
  obtain f w1 where op: "os_OpenFile gitignoreFilename w = (Inr f, w1)"
    using assms by (auto simp: update_gitignore_def split: prod.splits sum.splits)
  have fname: "f = gitignoreFilename"
    using os_OpenFile_handle [OF op] .
  obtain bytes w2 where rd: "io_ReadAll gitignoreFilename w1 = (Inr bytes, w2)"
    using assms op fname by (auto simp: update_gitignore_def split: prod.splits sum.splits)
  have ws: "write_sections gitignoreFilename bytes steps w2 = (None, w')"
    using assms op fname rd by (simp add: update_gitignore_def)
  have "files w1 gitignoreFilename =
          Some (case files w gitignoreFilename of None \<Rightarrow> [] | Some content \<Rightarrow> content)"
    using op
    by (auto simp: os_OpenFile_def syscall_def record_call_def split: option.splits if_splits)
  then have "bytes = (case files w gitignoreFilename of None \<Rightarrow> [] | Some content \<Rightarrow> content)"
    using rd by (auto simp: io_ReadAll_def syscall_def record_call_def split: option.splits)
  then show ?thesis
    using write_sections_trace [OF ws] os_OpenFile_trace [OF op] io_ReadAll_trace [OF rd]
    by (simp add: ignore_calls_def)
qed

text \<open>
  C7. Take a run of \<open>Create\<close> that returns \<open>nil\<close>. When \<open>os.Getwd\<close> has failed, the run
  is the \<open>os.Stat\<close> and the \<open>os.Getwd\<close> and nothing else. Otherwise the preset is the one
  read from the template store and decoded, and the calls made after reading it are, in
  this order:
  \<^item> the calls of the loop over all the steps of that preset, run from the world as it
    was after the preset was read; none of them is an \<open>os.WriteFile\<close>, an \<open>os.OpenFile\<close>
    or an \<open>io.ReadAll\<close>;
  \<^item> exactly one \<open>os.WriteFile\<close> for each document that the loop has accumulated, in the
    order in which the map is ranged over, to the path of the document, with the document
    marshalled with two spaces of indentation;
  \<^item> the calls of the ignore flush: \<open>os.OpenFile\<close> and \<open>io.ReadAll\<close> on the ignore file,
    then the writes of the section of every ignore step that the loop has accumulated and
    whose path does not occur in the content the file had after the config flush.
  So every config write comes after the last step and before the first call of the ignore
  flush.
\<close>

theorem flushes_follow_steps:
  assumes "Create L rank templateName home w = (None, w')"
  shows "if fault w (trace w @ [Os_Stat ''sst.config.ts'']) Os_Getwd = None
         then (\<exists>presetBytes p r w4 w5 step_calls config_calls.
                 fst (Templates_ReadFile
                        (filepath_Join [''templates'', templateName, ''preset.json'']) w) =
                   Inr presetBytes \<and>
                 json_Unmarshal_preset L presetBytes = Inr p \<and>
                 run_steps L templateName home (strings_ToLower L (filepath_Base (cwd w)))
                     (Steps p) initial_run
                     (w\<lparr>trace := trace w @
                         [Os_Stat ''sst.config.ts'', Os_Getwd,
                          Embed_ReadFile
                            (filepath_Join [''templates'', templateName, ''preset.json''])]\<rparr>) =
                   (Inr r, w4) \<and>
                 trace w4 =
                   trace w @
                     [Os_Stat ''sst.config.ts'', Os_Getwd,
                      Embed_ReadFile
                        (filepath_Join [''templates'', templateName, ''preset.json''])]
                     @ step_calls \<and>
                 list_all is_step_call step_calls \<and>
                 flush_packageJsons L rank (packageJsons r) w4 = (None, w5) \<and>
                 trace w5 = trace w4 @ config_calls \<and>
                 list_all2 (writes_document L)
                   (sort_key (\<lambda>fc. rank (fst fc)) (packageJsons r)) config_calls \<and>
                 trace w' =
                   trace w5 @
                     ignore_calls
                       (case files w5 gitignoreFilename of None \<Rightarrow> [] | Some content \<Rightarrow> content)
                       (gitignoreSteps r))
         else w' = w\<lparr>trace := trace w @ [Os_Stat ''sst.config.ts'', Os_Getwd]\<rparr>"
proof -
  obtain e1 w1 where st: "os_Stat ''sst.config.ts'' w = (Some e1, w1)"
    using assms by (auto simp: Create_def split: prod.splits option.splits)
  have w1: "w1 = w\<lparr>trace := trace w @ [Os_Stat ''sst.config.ts'']\<rparr>"
    using st by (auto simp: os_Stat_def syscall_def record_call_def split: option.splits if_splits)
  obtain g w2 where gw: "os_Getwd w1 = (g, w2)"
    by (cases "os_Getwd w1")
  have w2: "w2 = w\<lparr>trace := trace w @ [Os_Stat ''sst.config.ts'', Os_Getwd]\<rparr>"
    using gw w1 by (auto simp: os_Getwd_def syscall_def record_call_def split: option.splits)
  show ?thesis
  proof (cases "fault w (trace w @ [Os_Stat ''sst.config.ts'']) Os_Getwd")
    case (Some e)
    then have "g = Inl (PathError ''getwd'' ''.'' e)"
      using gw w1 by (simp add: os_Getwd_def syscall_def record_call_def)
    then have "w' = w2"
      using assms st gw by (simp add: Create_def)
    then show ?thesis
      using Some w2 by simp
  next
    case None
    then have g: "g = Inr (cwd w)"
      using gw w1 by (simp add: os_Getwd_def syscall_def record_call_def)
    define dn where "dn = strings_ToLower L (filepath_Base (cwd w))"
    define presetPath where "presetPath = filepath_Join [''templates'', templateName, ''preset.json'']"
    obtain presetBytes w3 where rp: "Templates_ReadFile presetPath w2 = (Inr presetBytes, w3)"
      using assms st gw g
      by (auto simp: Create_def Let_def presetPath_def split: prod.splits sum.splits)
    have w3: "w3 = w\<lparr>trace := trace w @ [Os_Stat ''sst.config.ts'', Os_Getwd,
                                          Embed_ReadFile presetPath]\<rparr>"
      using rp w2
      by (auto simp: Templates_ReadFile_def record_call_def split: sum.splits entry.splits)
    have rp0: "fst (Templates_ReadFile presetPath w) = Inr presetBytes"
      using rp w2
      by (auto simp: Templates_ReadFile_def record_call_def split: sum.splits entry.splits)
    obtain p where dp: "json_Unmarshal_preset L presetBytes = Inr p"
      using assms st gw g rp
      by (auto simp: Create_def Let_def presetPath_def split: prod.splits sum.splits)
    obtain r w4 where rs:
      "run_steps L templateName home dn (Steps p) initial_run w3 = (Inr r, w4)"
      using assms st gw g rp dp
      by (auto simp: Create_def Let_def presetPath_def dn_def split: prod.splits sum.splits)
    obtain w5 where fl: "flush_packageJsons L rank (packageJsons r) w4 = (None, w5)"
      using assms st gw g rp dp rs
      by (auto simp: Create_def Let_def presetPath_def dn_def
            split: prod.splits sum.splits option.splits)
    have ug: "update_gitignore (gitignoreSteps r) w5 = (None, w')"
      using assms st gw g rp dp rs fl
      by (simp add: Create_def Let_def presetPath_def dn_def)
    obtain cs where cs: "trace w4 = trace w3 @ cs" "list_all is_step_call cs"
      using run_steps_calls [of w3 L templateName home dn "Steps p" initial_run] rs
      by (auto simp: only_calls_def)
    obtain ws where ws: "trace w5 = trace w4 @ ws"
      "list_all2 (writes_document L) (sort_key (\<lambda>fc. rank (fst fc)) (packageJsons r)) ws"
      using write_packageJsons_trace [OF fl [unfolded flush_packageJsons_def]] by blast
    have t4: "trace w4 = trace w @ [Os_Stat ''sst.config.ts'', Os_Getwd,
                                     Embed_ReadFile presetPath] @ cs"
      using cs(1) w3 by simp
    have "\<exists>presetBytes p r w4 w5 step_calls config_calls.
            fst (Templates_ReadFile presetPath w) = Inr presetBytes \<and>
            json_Unmarshal_preset L presetBytes = Inr p \<and>
            run_steps L templateName home dn (Steps p) initial_run
                (w\<lparr>trace := trace w @ [Os_Stat ''sst.config.ts'', Os_Getwd,
                                         Embed_ReadFile presetPath]\<rparr>) = (Inr r, w4) \<and>
            trace w4 = trace w @ [Os_Stat ''sst.config.ts'', Os_Getwd,
                                  Embed_ReadFile presetPath] @ step_calls \<and>
            list_all is_step_call step_calls \<and>
            flush_packageJsons L rank (packageJsons r) w4 = (None, w5) \<and>
            trace w5 = trace w4 @ config_calls \<and>
            list_all2 (writes_document L)
              (sort_key (\<lambda>fc. rank (fst fc)) (packageJsons r)) config_calls \<and>
            trace w' =
              trace w5 @
                ignore_calls
                  (case files w5 gitignoreFilename of None \<Rightarrow> [] | Some content \<Rightarrow> content)
                  (gitignoreSteps r)"
      using rp0 dp rs [unfolded w3] t4 cs(2) fl ws update_gitignore_trace [OF ug]
      by blast
    then show ?thesis
      using None by (simp add: dn_def presetPath_def)
  qed
qed

theorem flushes_follow_steps_witness:
  \<open>fst (Create sample_lib no_rank ''npm'' ''home''
         (sample_world [''package.json'' \<mapsto> package_json])) = None \<and>
   trace (snd (Create sample_lib no_rank ''npm'' ''home''
                 (sample_world [''package.json'' \<mapsto> package_json]))) =
     [Os_Stat ''sst.config.ts'', Os_Getwd, Embed_ReadFile ''templates/npm/preset.json'',
      Os_Open ''package.json'', File_Read ''package.json'',
      Os_WriteFile ''package.json''
        ''{\<newline>  "name": "app",\<newline>  "dependencies": {\<newline>    "hono": "4.0.0",\<newline>    "sst": "3.0.0"\<newline>  }\<newline>}'',
      Os_OpenFile ''.gitignore'', Io_ReadAll ''.gitignore'',
      File_WriteString ''.gitignore'' ''\<newline># sst\<newline>.sst\<newline>''] \<and>
   (\<exists>presetBytes p r w4 w5 step_calls config_calls.
      fst (Templates_ReadFile (filepath_Join [''templates'', ''npm'', ''preset.json''])
             (sample_world [''package.json'' \<mapsto> package_json])) = Inr presetBytes \<and>
      json_Unmarshal_preset sample_lib presetBytes = Inr p \<and>
      run_steps sample_lib ''npm'' ''home''
          (strings_ToLower sample_lib
             (filepath_Base (cwd (sample_world [''package.json'' \<mapsto> package_json]))))
          (Steps p) initial_run
          ((sample_world [''package.json'' \<mapsto> package_json])
             \<lparr>trace := trace (sample_world [''package.json'' \<mapsto> package_json]) @
                 [Os_Stat ''sst.config.ts'', Os_Getwd,
                  Embed_ReadFile (filepath_Join [''templates'', ''npm'', ''preset.json''])]\<rparr>) =
        (Inr r, w4) \<and>
      trace w4 =
        trace (sample_world [''package.json'' \<mapsto> package_json]) @
          [Os_Stat ''sst.config.ts'', Os_Getwd,
           Embed_ReadFile (filepath_Join [''templates'', ''npm'', ''preset.json''])]
          @ step_calls \<and>
      list_all is_step_call step_calls \<and>
      flush_packageJsons sample_lib no_rank (packageJsons r) w4 = (None, w5) \<and>
      trace w5 = trace w4 @ config_calls \<and>
      list_all2 (writes_document sample_lib)
        (sort_key (\<lambda>fc. no_rank (fst fc)) (packageJsons r)) config_calls \<and>
      trace (snd (Create sample_lib no_rank ''npm'' ''home''
                    (sample_world [''package.json'' \<mapsto> package_json]))) =
        trace w5 @
          ignore_calls
            (case files w5 gitignoreFilename of None \<Rightarrow> [] | Some content \<Rightarrow> content)
            (gitignoreSteps r))\<close>
proof -
  have ok: "fst (Create sample_lib no_rank ''npm'' ''home''
                  (sample_world [''package.json'' \<mapsto> package_json])) = None"
    by code_simp
  have tr: \<open>trace (snd (Create sample_lib no_rank ''npm'' ''home''
                 (sample_world [''package.json'' \<mapsto> package_json]))) =
     [Os_Stat ''sst.config.ts'', Os_Getwd, Embed_ReadFile ''templates/npm/preset.json'',
      Os_Open ''package.json'', File_Read ''package.json'',
      Os_WriteFile ''package.json''
        ''{\<newline>  "name": "app",\<newline>  "dependencies": {\<newline>    "hono": "4.0.0",\<newline>    "sst": "3.0.0"\<newline>  }\<newline>}'',
      Os_OpenFile ''.gitignore'', Io_ReadAll ''.gitignore'',
      File_WriteString ''.gitignore'' ''\<newline># sst\<newline>.sst\<newline>'']\<close>
    by code_simp
  have "Create sample_lib no_rank ''npm'' ''home''
               (sample_world [''package.json'' \<mapsto> package_json]) =
             (None, snd (Create sample_lib no_rank ''npm'' ''home''
                           (sample_world [''package.json'' \<mapsto> package_json])))"
    using ok by (simp add: prod_eq_iff)
  from flushes_follow_steps [OF this]
  have "\<exists>presetBytes p r w4 w5 step_calls config_calls.
      fst (Templates_ReadFile (filepath_Join [''templates'', ''npm'', ''preset.json''])
             (sample_world [''package.json'' \<mapsto> package_json])) = Inr presetBytes \<and>
      json_Unmarshal_preset sample_lib presetBytes = Inr p \<and>
      run_steps sample_lib ''npm'' ''home''
          (strings_ToLower sample_lib
             (filepath_Base (cwd (sample_world [''package.json'' \<mapsto> package_json]))))
          (Steps p) initial_run
          ((sample_world [''package.json'' \<mapsto> package_json])
             \<lparr>trace := trace (sample_world [''package.json'' \<mapsto> package_json]) @
                 [Os_Stat ''sst.config.ts'', Os_Getwd,
                  Embed_ReadFile (filepath_Join [''templates'', ''npm'', ''preset.json''])]\<rparr>) =
        (Inr r, w4) \<and>
      trace w4 =
        trace (sample_world [''package.json'' \<mapsto> package_json]) @
          [Os_Stat ''sst.config.ts'', Os_Getwd,
           Embed_ReadFile (filepath_Join [''templates'', ''npm'', ''preset.json''])]
          @ step_calls \<and>
      list_all is_step_call step_calls \<and>
      flush_packageJsons sample_lib no_rank (packageJsons r) w4 = (None, w5) \<and>
      trace w5 = trace w4 @ config_calls \<and>
      list_all2 (writes_document sample_lib)
        (sort_key (\<lambda>fc. no_rank (fst fc)) (packageJsons r)) config_calls \<and>
      trace (snd (Create sample_lib no_rank ''npm'' ''home''
                    (sample_world [''package.json'' \<mapsto> package_json]))) =
        trace w5 @
          ignore_calls
            (case files w5 gitignoreFilename of None \<Rightarrow> [] | Some content \<Rightarrow> content)
            (gitignoreSteps r)"
    by (simp add: sample_world_def)
  then show ?thesis
    using ok tr by blast
qed

end
